theory Spec2Isabelle
  imports Complex_Main "HOL-Library.Word"
begin


section \<open>go-demo: the response writer and its decorator\<close>

text \<open>
  \<^verbatim>\<open>http.Header\<close> is \<^verbatim>\<open>map[string][]string\<close>. On the response side the decorator and
  \<^verbatim>\<open>ready\<close> only use the literal key \<^verbatim>\<open>"Connection"\<close>, which is already in canonical form,
  so \<^verbatim>\<open>Set\<close> stores under the key as written.
\<close>

type_synonym bytes = string
type_synonym Header = "string \<Rightarrow> string list option"

text \<open>
  The \<^verbatim>\<open>http.ResponseWriter\<close> the server hands to a handler, as far as the handlers of
  this program observe it (the contract of net/http): the header map can be changed
  until the header is committed; the first \<^verbatim>\<open>WriteHeader\<close> commits status and a
  snapshot of the header map, later ones are ignored; \<^verbatim>\<open>Write\<close> and \<^verbatim>\<open>Flush\<close> commit
  with status 200 when nothing was committed yet; \<^verbatim>\<open>ReadFrom\<close> and \<^verbatim>\<open>io.Copy\<close> write
  what the source holds and do nothing on an empty source. Informational status codes
  (1xx), which net/http sends without committing, are not told apart from the others.
  \<open>setLog\<close> is a ghost trace of the \<^verbatim>\<open>Header().Set\<close> calls made on this writer, oldest
  first.
\<close>

record ResponseWriter =
  header :: Header
  setLog :: "(string \<times> string) list"
  wroteHeader :: bool
  status :: int
  sentHeader :: Header
  body :: bytes
  implementsReaderFrom :: bool
  implementsFlusher :: bool

definition Header_Set :: "string \<Rightarrow> string \<Rightarrow> ResponseWriter \<Rightarrow> ResponseWriter" where
  "Header_Set key v w = w\<lparr>header := (header w)(key \<mapsto> [v]), setLog := setLog w @ [(key, v)]\<rparr>"

definition rw_WriteHeader :: "int \<Rightarrow> ResponseWriter \<Rightarrow> ResponseWriter" where
  "rw_WriteHeader code w =
     (if wroteHeader w then w
      else w\<lparr>wroteHeader := True, status := code, sentHeader := header w\<rparr>)"

definition rw_Write :: "bytes \<Rightarrow> ResponseWriter \<Rightarrow> ResponseWriter" where
  "rw_Write b w = (let w' = rw_WriteHeader 200 w in w'\<lparr>body := body w' @ b\<rparr>)"

definition rw_Flush :: "ResponseWriter \<Rightarrow> ResponseWriter" where
  "rw_Flush w = rw_WriteHeader 200 w"

definition rw_ReadFrom :: "bytes \<Rightarrow> ResponseWriter \<Rightarrow> ResponseWriter" where
  "rw_ReadFrom src w = (if src = [] then w else rw_Write src w)"

definition io_Copy :: "ResponseWriter \<Rightarrow> bytes \<Rightarrow> ResponseWriter" where
  "io_Copy w src = (if src = [] then w else rw_Write src w)"

text \<open>
  \<^verbatim>\<open>type connectionCloseWriter struct { http.ResponseWriter; headerWritten bool }\<close>.
  The global \<^verbatim>\<open>shutdownInitiated\<close> is read by \<^verbatim>\<open>injectHeader\<close>; its value at the
  moment of the call is the first argument of each method.
\<close>

record connectionCloseWriter =
  ResponseWriter :: ResponseWriter
  headerWritten :: bool

definition injectHeader :: "bool \<Rightarrow> connectionCloseWriter \<Rightarrow> connectionCloseWriter" where
  "injectHeader shutdownInitiated w =
     (if \<not> headerWritten w then
        (let w1 = w\<lparr>headerWritten := True\<rparr> in
         if shutdownInitiated
         then w1\<lparr>ResponseWriter := Header_Set ''Connection'' ''close'' (ResponseWriter w1)\<rparr>
         else w1)
      else w)"

definition cw_WriteHeader :: "bool \<Rightarrow> int \<Rightarrow> connectionCloseWriter \<Rightarrow> connectionCloseWriter" where
  "cw_WriteHeader shutdownInitiated code w =
     (let w1 = injectHeader shutdownInitiated w
      in w1\<lparr>ResponseWriter := rw_WriteHeader code (ResponseWriter w1)\<rparr>)"

definition cw_Write :: "bool \<Rightarrow> bytes \<Rightarrow> connectionCloseWriter \<Rightarrow> connectionCloseWriter" where
  "cw_Write shutdownInitiated b w =
     (let w1 = injectHeader shutdownInitiated w
      in w1\<lparr>ResponseWriter := rw_Write b (ResponseWriter w1)\<rparr>)"

definition cw_Flush :: "connectionCloseWriter \<Rightarrow> connectionCloseWriter" where
  "cw_Flush w =
     (if implementsFlusher (ResponseWriter w)
      then w\<lparr>ResponseWriter := rw_Flush (ResponseWriter w)\<rparr>
      else w)"

definition cw_ReadFrom :: "bool \<Rightarrow> bytes \<Rightarrow> connectionCloseWriter \<Rightarrow> connectionCloseWriter" where
  "cw_ReadFrom shutdownInitiated src w =
     (let w1 = injectHeader shutdownInitiated w in
      if implementsReaderFrom (ResponseWriter w1)
      then w1\<lparr>ResponseWriter := rw_ReadFrom src (ResponseWriter w1)\<rparr>
      else w1\<lparr>ResponseWriter := io_Copy (ResponseWriter w1) src\<rparr>)"

text \<open>
  What a handler does to its writer is a sequence of method calls. While one response is
  being written the coordinator may run \<^verbatim>\<open>shutdownInitiated.Store(true)\<close> between two of
  them; \<open>ShutdownInitiatedStore\<close> is that event. \<open>handle\<close> runs the sequence on a
  decorated writer, from the value of \<^verbatim>\<open>shutdownInitiated\<close> at its start.
\<close>

datatype call = WriteHeader int | Write bytes | Flush | ReadFrom bytes

datatype action = Call call | ShutdownInitiatedStore

fun cw_call :: "bool \<Rightarrow> call \<Rightarrow> connectionCloseWriter \<Rightarrow> connectionCloseWriter" where
  "cw_call si (WriteHeader code) w = cw_WriteHeader si code w"
| "cw_call si (Write b) w = cw_Write si b w"
| "cw_call si Flush w = cw_Flush w"
| "cw_call si (ReadFrom src) w = cw_ReadFrom si src w"

fun rw_call :: "call \<Rightarrow> ResponseWriter \<Rightarrow> ResponseWriter" where
  "rw_call (WriteHeader code) w = rw_WriteHeader code w"
| "rw_call (Write b) w = rw_Write b w"
| "rw_call Flush w = (if implementsFlusher w then rw_Flush w else w)"
| "rw_call (ReadFrom src) w = (if implementsReaderFrom w then rw_ReadFrom src w else io_Copy w src)"

fun handle :: "action list \<Rightarrow> bool \<times> connectionCloseWriter \<Rightarrow> bool \<times> connectionCloseWriter" where
  "handle [] s = s"
| "handle (Call c # as) (si, w) = handle as (si, cw_call si c w)"
| "handle (ShutdownInitiatedStore # as) (si, w) = handle as (True, w)"

text \<open>\<^verbatim>\<open>graceful\<close>: \<^verbatim>\<open>cw := &connectionCloseWriter{ResponseWriter: w}\<close>.\<close>

definition graceful_writer :: "ResponseWriter \<Rightarrow> connectionCloseWriter" where
  "graceful_writer w = \<lparr>ResponseWriter = w, headerWritten = False\<rparr>"

text \<open>
  The methods that call \<^verbatim>\<open>injectHeader\<close> are \<^verbatim>\<open>WriteHeader\<close>, \<^verbatim>\<open>Write\<close> and \<^verbatim>\<open>ReadFrom\<close>;
  \<^verbatim>\<open>Flush\<close> does not. \<open>closeSets\<close> counts how often \<^verbatim>\<open>Header().Set("Connection", "close")\<close>
  ran on a writer.
\<close>

definition injects :: "call \<Rightarrow> bool" where
  "injects c = (c \<noteq> Flush)"

definition closeSets :: "ResponseWriter \<Rightarrow> nat" where
  "closeSets w = count_list (setLog w) (''Connection'', ''close'')"

text \<open>A response on which nothing has been set or written yet.\<close>

definition newResponse :: ResponseWriter where
  "newResponse =
     \<lparr>header = Map.empty, setLog = [], wroteHeader = False, status = 0, sentHeader = Map.empty,
      body = [], implementsReaderFrom = True, implementsFlusher = True\<rparr>"

section \<open>go-demo: the shutdown coordinator and the readiness handler\<close>

text \<open>
  \<^verbatim>\<open>main\<close> blocks on \<^verbatim>\<open><-done\<close> until the signal arrives and then runs \<^verbatim>\<open>shutdown(server)\<close>:
  \<^verbatim>\<open>time.Sleep(shutdownSleepDuration)\<close>, \<^verbatim>\<open>shutdownInitiated.Store(true)\<close>,
  \<^verbatim>\<open>doGracefulShutdown()\<close> when \<^verbatim>\<open>gracefulShutdown\<close> is set, \<^verbatim>\<open>server.Shutdown(ctx)\<close>.
  \<open>pc\<close> is where the main goroutine stands; the events are what lets it move on.
  Requests are served concurrently while it stands anywhere before \<open>Exited\<close>.
\<close>

datatype pc = AwaitSignal | PreShutdownSleep | GracefulWait | ServerShutdown | Exited

record coordinator =
  pc :: pc
  shutdownInitiated :: bool

datatype cevent = Signal | SleepElapsed | GracefulChanClosed | ShutdownReturned

definition initial :: coordinator where
  "initial = \<lparr>pc = AwaitSignal, shutdownInitiated = False\<rparr>"

fun coordinate :: "bool \<Rightarrow> cevent \<Rightarrow> coordinator \<Rightarrow> coordinator" where
  "coordinate gracefulShutdown Signal s =
     (if pc s = AwaitSignal then s\<lparr>pc := PreShutdownSleep\<rparr> else s)"
| "coordinate gracefulShutdown SleepElapsed s =
     (if pc s = PreShutdownSleep
      then s\<lparr>shutdownInitiated := True,
             pc := (if gracefulShutdown then GracefulWait else ServerShutdown)\<rparr>
      else s)"
| "coordinate gracefulShutdown GracefulChanClosed s =
     (if pc s = GracefulWait then s\<lparr>pc := ServerShutdown\<rparr> else s)"
| "coordinate gracefulShutdown ShutdownReturned s =
     (if pc s = ServerShutdown then s\<lparr>pc := Exited\<rparr> else s)"

fun coordinator_run :: "bool \<Rightarrow> cevent list \<Rightarrow> coordinator \<Rightarrow> coordinator" where
  "coordinator_run g [] s = s"
| "coordinator_run g (e # es) s = coordinator_run g es (coordinate g e s)"

text \<open>\<^verbatim>\<open>ready\<close>, with the value \<^verbatim>\<open>shutdownInitiated.Load()\<close> returns as its first argument.\<close>

definition ready :: "bool \<Rightarrow> ResponseWriter \<Rightarrow> ResponseWriter" where
  "ready si w =
     (if si then rw_WriteHeader 503 (Header_Set ''Connection'' ''close'' w)
      else rw_Write ''OK'' w)"

section \<open>go-demo: the connection tracker\<close>

text \<open>
  \<^verbatim>\<open>numConnections\<close> is an \<^verbatim>\<open>atomic.Int32\<close>: a 32-bit word read as two's complement
  (\<open>sint\<close>), whose \<^verbatim>\<open>Add\<close> wraps around. The server calls the \<^verbatim>\<open>ConnState\<close> hook with
  the connection and its new state.
\<close>

datatype http_ConnState = StateNew | StateActive | StateIdle | StateHijacked | StateClosed

type_synonym conn = nat

fun ConnState :: "conn \<Rightarrow> http_ConnState \<Rightarrow> 32 word \<Rightarrow> 32 word" where
  "ConnState c StateNew numConnections = numConnections + 1"
| "ConnState c StateClosed numConnections = numConnections + (- 1)"
| "ConnState c StateHijacked numConnections = numConnections + (- 1)"
| "ConnState c st numConnections = numConnections"

fun replay :: "(conn \<times> http_ConnState) list \<Rightarrow> 32 word \<Rightarrow> 32 word" where
  "replay [] n = n"
| "replay ((c, st) # evs) n = replay evs (ConnState c st n)"

definition opens :: "(conn \<times> http_ConnState) list \<Rightarrow> nat" where
  "opens evs = length (filter (\<lambda>(c, st). st = StateNew) evs)"

definition closes :: "(conn \<times> http_ConnState) list \<Rightarrow> nat" where
  "closes evs = length (filter (\<lambda>(c, st). st = StateClosed \<or> st = StateHijacked) evs)"

text \<open>
  What net/http promises about the calls of the hook (the documentation of
  \<^verbatim>\<open>http.ConnState\<close>): a connection starts in \<^verbatim>\<open>StateNew\<close>; \<^verbatim>\<open>StateActive\<close> and
  \<^verbatim>\<open>StateIdle\<close> are reported for a connection that is open; \<^verbatim>\<open>StateHijacked\<close> and
  \<^verbatim>\<open>StateClosed\<close> are terminal, one of them is reported once. \<open>live\<close> holds the
  connections that are open.
\<close>

fun transport_ok :: "conn list \<Rightarrow> (conn \<times> http_ConnState) list \<Rightarrow> bool" where
  "transport_ok live [] = True"
| "transport_ok live ((c, StateNew) # evs) = (c \<notin> set live \<and> transport_ok (c # live) evs)"
| "transport_ok live ((c, StateClosed) # evs) = (c \<in> set live \<and> transport_ok (removeAll c live) evs)"
| "transport_ok live ((c, StateHijacked) # evs) = (c \<in> set live \<and> transport_ok (removeAll c live) evs)"
| "transport_ok live ((c, StateActive) # evs) = (c \<in> set live \<and> transport_ok live evs)"
| "transport_ok live ((c, StateIdle) # evs) = (c \<in> set live \<and> transport_ok live evs)"

section \<open>The drain wait\<close>

subsection \<open>go-demo: \<^verbatim>\<open>doGracefulShutdown\<close>\<close>

text \<open>
  Times are milliseconds since \<^verbatim>\<open>doGracefulShutdown\<close> was entered. The timer of
  \<^verbatim>\<open>time.AfterFunc(clientSideIdleTimeout, ...)\<close> closes \<^verbatim>\<open>gracefulChan\<close> at 15000; the
  ticker fires every 500 and the goroutine closes the channel at the first tick at which
  \<^verbatim>\<open>numConnections.Load()\<close> is 0. \<open>numConnectionsAt t\<close> is the value a load at time
  \<open>t\<close> returns. \<open>gracefulWait\<close> is the time at which \<^verbatim>\<open><-gracefulChan\<close> returns when
  the next tick is due at \<open>t\<close>, and who closed the channel.
\<close>

definition clientSideIdleTimeout :: nat where
  "clientSideIdleTimeout = 15000"

definition tickerPeriod :: nat where
  "tickerPeriod = 500"

datatype closer = Ticker | Timer

function gracefulWait :: "(nat \<Rightarrow> 32 word) \<Rightarrow> nat \<Rightarrow> nat \<times> closer" where
  "gracefulWait numConnectionsAt t =
     (if clientSideIdleTimeout \<le> t then (clientSideIdleTimeout, Timer)
      else if numConnectionsAt t = 0 then (t, Ticker)
      else gracefulWait numConnectionsAt (t + tickerPeriod))"
  by pat_completeness auto
termination
  by (relation "measure (\<lambda>(f, t). clientSideIdleTimeout - t)") (auto simp: tickerPeriod_def)

declare gracefulWait.simps [simp del]

definition doGracefulShutdown :: "(nat \<Rightarrow> 32 word) \<Rightarrow> nat \<times> closer" where
  "doGracefulShutdown numConnectionsAt = gracefulWait numConnectionsAt tickerPeriod"

text \<open>
  Nothing stops the timer (\<^verbatim>\<open>shutdownTimer\<close> is stored and never used) when the ticker
  goroutine has closed the channel: it still fires at 15000, and its
  \<^verbatim>\<open>close(gracefulChan)\<close> on the closed channel panics and ends the process, unless the
  process has exited before. \<open>exitAt\<close> is the time at which \<^verbatim>\<open>main\<close> returns, after
  \<^verbatim>\<open>server.Shutdown\<close>. When the timer closed the channel, the goroutine, blocked in its
  \<^verbatim>\<open>select\<close>, returns; a tick that falls on the very moment of the timer is not
  considered.
\<close>

definition timer_closes_again :: "(nat \<Rightarrow> 32 word) \<Rightarrow> nat \<Rightarrow> bool" where
  "timer_closes_again numConnectionsAt exitAt =
     (case doGracefulShutdown numConnectionsAt of
        (t, Ticker) \<Rightarrow> clientSideIdleTimeout \<le> exitAt
      | (t, Timer) \<Rightarrow> False)"

subsection \<open>node-demo: \<^verbatim>\<open>gracefulShutdown\<close> and \<^verbatim>\<open>drainConnections\<close>\<close>

text \<open>
  \<open>getConnections k\<close> is what the \<open>k\<close>-th \<^verbatim>\<open>await getConnectionsAsync(server)\<close> yields:
  the count, or the error the promise is rejected with. The loop has no other exit than
  a count \<^verbatim>\<open><= 0\<close> or a rejection, so it is a partial function: \<open>None\<close> means that
  \<^verbatim>\<open>drainConnections\<close> never finishes and \<^verbatim>\<open>server.close\<close> is never called.
\<close>

datatype drain_result = ServerClosed nat | GetConnectionsFailed nat string

partial_function (option) drainLoop :: "(nat \<Rightarrow> string + int) \<Rightarrow> nat \<Rightarrow> drain_result option" where
  "drainLoop getConnections k =
     (case getConnections k of
        Inl err \<Rightarrow> Some (GetConnectionsFailed k err)
      | Inr count \<Rightarrow>
          if count \<le> 0 then Some (ServerClosed k)
          else drainLoop getConnections (Suc k))"

definition drainConnections :: "(nat \<Rightarrow> string + int) \<Rightarrow> drain_result option" where
  "drainConnections getConnections = drainLoop getConnections 0"

definition node_gracefulShutdown :: "bool \<Rightarrow> int \<Rightarrow> (nat \<Rightarrow> string + int) \<Rightarrow> drain_result option" where
  "node_gracefulShutdown ENABLE_DRAIN DRAIN_TIMEOUT getConnections =
     (if \<not> ENABLE_DRAIN \<or> DRAIN_TIMEOUT \<le> 0 then Some (ServerClosed 0)
      else drainConnections getConnections)"

section \<open>go-demo: the latency sampler\<close>

text \<open>
  \<^verbatim>\<open>time.Duration\<close> is an \<^verbatim>\<open>int64\<close> count of nanoseconds: a 64-bit word read as two's
  complement. What \<^verbatim>\<open>sleep\<close> takes from the standard library is a parameter of the
  model: \<^verbatim>\<open>time.ParseDuration\<close> and \<^verbatim>\<open>fmt.Sscanf(s, "%f", &prob)\<close> (\<open>None\<close> when they
  return an error), and the \<^verbatim>\<open>float32\<close> arithmetic with its constants 0.0 and 1.0, its
  sum, product, quotient and comparison \<^verbatim>\<open><=\<close>. Nothing is assumed about them.
\<close>

type_synonym Duration = "64 word"

record 'f runtime =
  ParseDuration :: "string \<Rightarrow> Duration option"
  Sscanf_f :: "string \<Rightarrow> 'f option"
  f_zero :: 'f
  f_one :: 'f
  f_add :: "'f \<Rightarrow> 'f \<Rightarrow> 'f"
  f_mul :: "'f \<Rightarrow> 'f \<Rightarrow> 'f"
  f_div :: "'f \<Rightarrow> 'f \<Rightarrow> 'f"
  f_le :: "'f \<Rightarrow> 'f \<Rightarrow> bool"

text \<open>\<^verbatim>\<open>strings.Split(s, sep)\<close> and \<^verbatim>\<open>strings.SplitN(s, sep, 2)\<close> for a separator of one byte.\<close>

fun Split :: "string \<Rightarrow> char \<Rightarrow> string list" where
  "Split [] sep = [[]]"
| "Split (c # cs) sep =
     (if c = sep then [] # Split cs sep
      else (case Split cs sep of [] \<Rightarrow> [[c]] | p # ps \<Rightarrow> (c # p) # ps))"

definition SplitN2 :: "string \<Rightarrow> char \<Rightarrow> string list" where
  "SplitN2 s sep =
     (if sep \<in> set s then [takeWhile (\<lambda>c. c \<noteq> sep) s, tl (dropWhile (\<lambda>c. c \<noteq> sep) s)]
      else [s])"

text \<open>
  \<^verbatim>\<open>rand.Int63n(n)\<close> panics if \<^verbatim>\<open>n <= 0\<close> and otherwise returns a number in \<open>[0, n)\<close>;
  \<open>rnd\<close> is what the generator draws.
\<close>

definition Int63n :: "int \<Rightarrow> nat \<Rightarrow> string + int" where
  "Int63n n rnd = (if n \<le> 0 then Inl ''invalid argument to Int63n'' else Inr (int rnd mod n))"

datatype outcome = BadRequest string | Slept Duration | Panicked string

text \<open>\<^verbatim>\<open>buildInverseDiscreteCDF\<close>: the loop that fills \<^verbatim>\<open>cdf\<close>, and the closure it returns,
  applied to the value \<open>r\<close> that \<^verbatim>\<open>rand.Float32()\<close> draws. An index out of range panics.\<close>

fun cdf_loop :: "'f runtime \<Rightarrow> 'f list \<Rightarrow> 'f \<Rightarrow> 'f list" where
  "cdf_loop R [] cumProb = []"
| "cdf_loop R (p # ps) cumProb = f_add R cumProb p # cdf_loop R ps (f_add R cumProb p)"

fun inverse_loop :: "'f runtime \<Rightarrow> 'f \<Rightarrow> Duration list \<Rightarrow> nat \<Rightarrow> 'f list \<Rightarrow> string + Duration" where
  "inverse_loop R r values i [] =
     (if values = [] then Inl ''index out of range'' else Inr (values ! (length values - 1)))"
| "inverse_loop R r values i (cp # cdf) =
     (if f_le R r cp
      then (if i < length values then Inr (values ! i) else Inl ''index out of range'')
      else inverse_loop R r values (Suc i) cdf)"

definition buildInverseDiscreteCDF ::
  "'f runtime \<Rightarrow> Duration list \<Rightarrow> 'f list \<Rightarrow> 'f \<Rightarrow> string + Duration" where
  "buildInverseDiscreteCDF R values probabilities r =
     inverse_loop R r values 0 (cdf_loop R probabilities (f_zero R))"

text \<open>The loop of \<^verbatim>\<open>sleep\<close> over the pairs of \<^verbatim>\<open>pdf\<close>; \<open>Inl\<close> is the body of the 400 response.\<close>

fun pdf_loop ::
  "'f runtime \<Rightarrow> string list \<Rightarrow> Duration list \<Rightarrow> 'f list \<Rightarrow> 'f
     \<Rightarrow> string + (Duration list \<times> 'f list \<times> 'f)" where
  "pdf_loop R [] values probabilities totalProb = Inr (values, probabilities, totalProb)"
| "pdf_loop R (pair # pairs) values probabilities totalProb =
     (let parts = SplitN2 pair CHR '':'' in
      if length parts \<noteq> 2 then Inl ''Invalid pdf parameter\<newline>''
      else
        (case ParseDuration R (parts ! 0) of
           None \<Rightarrow> Inl ''Failed to parse duration in pdf\<newline>''
         | Some dur \<Rightarrow>
             (case Sscanf_f R (parts ! 1) of
                None \<Rightarrow> Inl ''Failed to parse probability in pdf\<newline>''
              | Some prob \<Rightarrow>
                  pdf_loop R pairs (values @ [dur]) (probabilities @ [prob])
                    (f_add R totalProb prob))))"

definition sleep_pdf :: "'f runtime \<Rightarrow> string \<Rightarrow> 'f \<Rightarrow> outcome" where
  "sleep_pdf R pdf r =
     (case pdf_loop R (Split pdf CHR '','') [] [] (f_zero R) of
        Inl msg \<Rightarrow> BadRequest msg
      | Inr (values, probabilities, totalProb) \<Rightarrow>
          if f_le R totalProb (f_zero R)
          then BadRequest ''Total probability in pdf must be greater than 0\<newline>''
          else
            (let invTotalProb = f_div R (f_one R) totalProb;
                 probabilities' = map (\<lambda>p. f_mul R p invTotalProb) probabilities
             in case buildInverseDiscreteCDF R values probabilities' r of
                  Inl p \<Rightarrow> Panicked p
                | Inr sleepDuration \<Rightarrow> Slept sleepDuration))"

definition parse_bound :: "'f runtime \<Rightarrow> string \<Rightarrow> Duration \<Rightarrow> string \<Rightarrow> string + Duration" where
  "parse_bound R s dflt msg =
     (case ParseDuration R s of
        Some d \<Rightarrow> Inr d
      | None \<Rightarrow> if s \<noteq> [] then Inl msg else Inr dflt)"

definition sleep_uniform :: "'f runtime \<Rightarrow> string \<Rightarrow> string \<Rightarrow> nat \<Rightarrow> outcome" where
  "sleep_uniform R minD maxD rnd =
     (case parse_bound R minD 50000000 ''Failed to parse min duration\<newline>'' of
        Inl msg \<Rightarrow> BadRequest msg
      | Inr lo \<Rightarrow>
          (case parse_bound R maxD 1000000000 ''Failed to parse max duration\<newline>'' of
             Inl msg \<Rightarrow> BadRequest msg
           | Inr hi \<Rightarrow>
               (case Int63n (sint (hi - lo + 1)) rnd of
                  Inl p \<Rightarrow> Panicked p
                | Inr x \<Rightarrow> Slept (lo + word_of_int x))))"

text \<open>
  \<^verbatim>\<open>sleep\<close>, from the query values \<^verbatim>\<open>min\<close>, \<^verbatim>\<open>max\<close> and \<^verbatim>\<open>pdf\<close> (empty when absent), the
  draw \<open>r\<close> of \<^verbatim>\<open>rand.Float32()\<close> and the draw \<open>rnd\<close> of \<^verbatim>\<open>rand.Int63n\<close>. \<open>Slept d\<close> is
  \<^verbatim>\<open>time.Sleep(d)\<close> followed by the 200 response \<^verbatim>\<open>Slept for d\<close>; \<open>BadRequest\<close> is the 400
  response, sent without sleeping.
\<close>

definition sleep :: "'f runtime \<Rightarrow> string \<Rightarrow> string \<Rightarrow> string \<Rightarrow> 'f \<Rightarrow> nat \<Rightarrow> outcome" where
  "sleep R minD maxD pdf r rnd =
     (if pdf \<noteq> [] then sleep_pdf R pdf r else sleep_uniform R minD maxD rnd)"

text \<open>
  The weighted mode in the words of the specification: the pairs of the list, their
  durations and weights, the input that is invalid, the cumulative distribution of the
  normalised weights in the given order, and the selection of the first entry whose
  cumulative probability is at least \<open>r\<close>, the last entry when there is none.
\<close>

definition pair_duration :: "'f runtime \<Rightarrow> string \<Rightarrow> Duration option" where
  "pair_duration R pair =
     (if CHR '':'' \<in> set pair then ParseDuration R (takeWhile (\<lambda>c. c \<noteq> CHR '':'') pair) else None)"

definition pair_weight :: "'f runtime \<Rightarrow> string \<Rightarrow> 'f option" where
  "pair_weight R pair =
     (if CHR '':'' \<in> set pair then Sscanf_f R (tl (dropWhile (\<lambda>c. c \<noteq> CHR '':'') pair)) else None)"

definition listed_durations :: "'f runtime \<Rightarrow> string \<Rightarrow> Duration list" where
  "listed_durations R pdf = List.map_filter (pair_duration R) (Split pdf CHR '','')"

definition listed_weights :: "'f runtime \<Rightarrow> string \<Rightarrow> 'f list" where
  "listed_weights R pdf = List.map_filter (pair_weight R) (Split pdf CHR '','')"

definition total_weight :: "'f runtime \<Rightarrow> string \<Rightarrow> 'f" where
  "total_weight R pdf = foldl (f_add R) (f_zero R) (listed_weights R pdf)"

definition pair_bad :: "'f runtime \<Rightarrow> string \<Rightarrow> bool" where
  "pair_bad R pair =
     (CHR '':'' \<notin> set pair \<or> pair_duration R pair = None \<or> pair_weight R pair = None)"

definition invalid_pdf :: "'f runtime \<Rightarrow> string \<Rightarrow> bool" where
  "invalid_pdf R pdf =
     ((\<exists>pair \<in> set (Split pdf CHR '',''). pair_bad R pair)
      \<or> f_le R (total_weight R pdf) (f_zero R))"

definition normalized_weights :: "'f runtime \<Rightarrow> string \<Rightarrow> 'f list" where
  "normalized_weights R pdf =
     map (\<lambda>p. f_mul R p (f_div R (f_one R) (total_weight R pdf))) (listed_weights R pdf)"

definition cumulative :: "'f runtime \<Rightarrow> 'f list \<Rightarrow> 'f list" where
  "cumulative R ps = map (\<lambda>i. foldl (f_add R) (f_zero R) (take (Suc i) ps)) [0..<length ps]"

definition first_at_least :: "'f runtime \<Rightarrow> 'f \<Rightarrow> 'f list \<Rightarrow> Duration list \<Rightarrow> Duration" where
  "first_at_least R r cdf values =
     (case find (\<lambda>(cp, v). f_le R r cp) (zip cdf values) of
        Some (cp, v) \<Rightarrow> v
      | None \<Rightarrow> last values)"

text \<open>
  A runtime for the examples: the durations and weights that the examples of the
  specification use, and exact rational arithmetic in the place of \<^verbatim>\<open>float32\<close>.
\<close>

definition example_runtime :: "rat runtime" where
  "example_runtime =
     \<lparr>ParseDuration = (\<lambda>s. if s = ''50ms'' then Some 50000000
                            else if s = ''100ms'' then Some 100000000
                            else if s = ''150ms'' then Some 150000000
                            else if s = ''200ms'' then Some 200000000 else None),
      Sscanf_f = (\<lambda>s. if s = ''0'' then Some 0 else if s = ''1'' then Some 1
                       else if s = ''3'' then Some 3 else None),
      f_zero = 0, f_one = 1, f_add = (+), f_mul = (*), f_div = (/), f_le = (\<le>)\<rparr>"

section \<open>go-demo: the proxy relay\<close>

text \<open>
  An \<^verbatim>\<open>http.Request\<close> as \<^verbatim>\<open>proxy\<close> reads and builds it. \<^verbatim>\<open>Header.Get\<close> and \<^verbatim>\<open>Header.Set\<close>
  look a key up in its canonical form; \<open>canon\<close> is \<^verbatim>\<open>textproto.CanonicalMIMEHeaderKey\<close>,
  a parameter of the model. \<^verbatim>\<open>Get\<close> returns the first value of the key, the empty
  string when there is none. Of the header of a response only \<^verbatim>\<open>Location\<close> is kept, as
  \<^verbatim>\<open>resp.Header.Get("Location")\<close> reads it.
\<close>

record URL =
  Scheme :: string
  Host :: string
  Path :: string
  RawQuery :: string

record Request =
  Method :: string
  URL :: URL
  Header :: Header
  Body :: bytes

record Response =
  StatusCode :: int
  Location :: string
  ResponseBody :: bytes

definition header_Get :: "(string \<Rightarrow> string) \<Rightarrow> Header \<Rightarrow> string \<Rightarrow> string" where
  "header_Get canon h key =
     (case h (canon key) of None \<Rightarrow> [] | Some [] \<Rightarrow> [] | Some (v # vs) \<Rightarrow> v)"

definition header_Set :: "(string \<Rightarrow> string) \<Rightarrow> Header \<Rightarrow> string \<Rightarrow> string \<Rightarrow> Header" where
  "header_Set canon h key v = h(canon key \<mapsto> [v])"

definition traceHeaders :: "string list" where
  "traceHeaders =
     [''X-Request-ID'', ''X-B3-Traceid'', ''X-B3-Spanid'', ''X-B3-Parentspanid'', ''X-B3-Sampled'',
      ''X-B3-Flags'', ''X-Ot-Span-Context'', ''Traceparent'', ''Tracestate'', ''B3'']"

fun forward_loop :: "(string \<Rightarrow> string) \<Rightarrow> string list \<Rightarrow> Header \<Rightarrow> Header \<Rightarrow> Header" where
  "forward_loop canon [] src dest = dest"
| "forward_loop canon (h # hs) src dest =
     (let v = header_Get canon src h
      in forward_loop canon hs src (if v \<noteq> [] then header_Set canon dest h v else dest))"

definition forwardTraceHeaders :: "(string \<Rightarrow> string) \<Rightarrow> Header \<Rightarrow> Header \<Rightarrow> Header" where
  "forwardTraceHeaders canon src dest = forward_loop canon traceHeaders src dest"

text \<open>
  The request \<^verbatim>\<open>proxy\<close> builds. \<^verbatim>\<open>http.NewRequest\<close> reads an empty method as \<^verbatim>\<open>GET\<close> and
  fails on a method that is not valid (\<open>validMethod\<close>, a parameter); it is given
  \<^verbatim>\<open>http.NoBody\<close> and returns a request with an empty header.
  \<^verbatim>\<open>r.URL.Path[1+len(service):]\<close> panics on a path shorter than that.
\<close>

datatype proxy_error = NewRequestFailed | SliceOutOfRange

definition proxy_request ::
  "(string \<Rightarrow> string) \<Rightarrow> (string \<Rightarrow> bool) \<Rightarrow> string \<Rightarrow> Request \<Rightarrow> proxy_error + Request" where
  "proxy_request canon validMethod service r =
     (let method = (if Method r = [] then ''GET'' else Method r) in
      if \<not> validMethod method then Inl NewRequestFailed
      else
        (let req = \<lparr>Method = method,
                    URL = \<lparr>Scheme = ''http'', Host = service, Path = ''/'', RawQuery = []\<rparr>,
                    Header = Map.empty, Body = []\<rparr>;
             req1 = req\<lparr>Header := forwardTraceHeaders canon (Header r) (Header req)\<rparr>
         in if length (Path (URL r)) < 1 + length service then Inl SliceOutOfRange
            else Inr (req1\<lparr>URL := (URL req1)\<lparr>Path := drop (1 + length service) (Path (URL r)),
                                               RawQuery := RawQuery (URL r)\<rparr>\<rparr>)))"

text \<open>
  \<^verbatim>\<open>http.Error(w, msg, code)\<close> as the calls it makes on the writer that carry status and
  body: \<^verbatim>\<open>w.WriteHeader(code)\<close> and \<^verbatim>\<open>fmt.Fprintln(w, msg)\<close>.
\<close>

definition http_Error :: "string \<Rightarrow> int \<Rightarrow> call list" where
  "http_Error msg code = [WriteHeader code, Write (msg @ ''\<newline>'')]"

text \<open>
  \<^verbatim>\<open>client.Do\<close> of the \<^verbatim>\<open>http.Client\<close> that \<^verbatim>\<open>main\<close> builds, after the documentation of
  net/http. The client has no \<^verbatim>\<open>CheckRedirect\<close>, so it follows redirects: a response
  301, 302 or 303 with a \<^verbatim>\<open>Location\<close> is answered by a request to that location with the
  method \<^verbatim>\<open>GET\<close> (\<^verbatim>\<open>HEAD\<close> stays \<^verbatim>\<open>HEAD\<close>), a response 307 or 308 by one with the same
  method, each with the header of the first request and no body; a redirect without
  \<^verbatim>\<open>Location\<close> is returned as it is; the default policy stops with an error after 10
  requests. \<open>send\<close> is one round trip to the server the request names (the error when
  it cannot be reached) and \<open>Parse\<close> is \<^verbatim>\<open>req.URL.Parse(loc)\<close>, both parameters of the
  model; \<open>n\<close> counts the requests that may still follow. The \<^verbatim>\<open>Referer\<close> the client
  adds to a followed request, and the credentials it drops when the redirect leaves the
  domain, are left out; the allow-listed headers are not among them.
\<close>

definition redirectBehavior :: "string \<Rightarrow> Response \<Rightarrow> string \<times> bool" where
  "redirectBehavior reqMethod resp =
     (if StatusCode resp = 301 \<or> StatusCode resp = 302 \<or> StatusCode resp = 303
      then (if reqMethod \<noteq> ''GET'' \<and> reqMethod \<noteq> ''HEAD'' then ''GET'' else reqMethod, True)
      else if StatusCode resp = 307 \<or> StatusCode resp = 308 then (reqMethod, True)
      else ([], False))"

fun client_Do ::
  "(URL \<Rightarrow> string \<Rightarrow> string + URL) \<Rightarrow> (Request \<Rightarrow> string + Response) \<Rightarrow> nat \<Rightarrow> Request
     \<Rightarrow> string + Response" where
  "client_Do Parse send 0 req =
     (case send req of
        Inl err \<Rightarrow> Inl err
      | Inr resp \<Rightarrow>
          (case redirectBehavior (Method req) resp of
             (redirectMethod, False) \<Rightarrow> Inr resp
           | (redirectMethod, True) \<Rightarrow>
               if Location resp = [] then Inr resp
               else (case Parse (URL req) (Location resp) of
                       Inl err \<Rightarrow> Inl err
                     | Inr u \<Rightarrow> Inl ''stopped after 10 redirects'')))"
| "client_Do Parse send (Suc n) req =
     (case send req of
        Inl err \<Rightarrow> Inl err
      | Inr resp \<Rightarrow>
          (case redirectBehavior (Method req) resp of
             (redirectMethod, False) \<Rightarrow> Inr resp
           | (redirectMethod, True) \<Rightarrow>
               if Location resp = [] then Inr resp
               else (case Parse (URL req) (Location resp) of
                       Inl err \<Rightarrow> Inl err
                     | Inr u \<Rightarrow> client_Do Parse send n (req\<lparr>Method := redirectMethod, URL := u\<rparr>))))"

definition main_client ::
  "(URL \<Rightarrow> string \<Rightarrow> string + URL) \<Rightarrow> (Request \<Rightarrow> string + Response) \<Rightarrow> Request \<Rightarrow> string + Response" where
  "main_client Parse send = client_Do Parse send 9"

text \<open>
  \<^verbatim>\<open>proxy\<close>: the calls it makes on its writer, or the panic. \<open>client\<close> is \<^verbatim>\<open>client.Do\<close>,
  in the program \<open>main_client\<close>: what it returns is the response the client ends with,
  after the redirects it followed, or its error. \<^verbatim>\<open>io.Copy(w, resp.Body)\<close> reaches the
  writer as one \<^verbatim>\<open>ReadFrom\<close>.
\<close>

definition proxy ::
  "(string \<Rightarrow> string) \<Rightarrow> (string \<Rightarrow> bool) \<Rightarrow> (Request \<Rightarrow> string + Response) \<Rightarrow> string \<Rightarrow> Request
     \<Rightarrow> string + call list" where
  "proxy canon validMethod client service r =
     (case proxy_request canon validMethod service r of
        Inl NewRequestFailed \<Rightarrow> Inr (http_Error ''Failed to create request\<newline>'' 500)
      | Inl SliceOutOfRange \<Rightarrow> Inl ''slice bounds out of range''
      | Inr req \<Rightarrow>
          (case client req of
             Inl err \<Rightarrow> Inr (http_Error ''Request to envoy failed\<newline>'' 502)
           | Inr resp \<Rightarrow> Inr [WriteHeader (StatusCode resp), ReadFrom (ResponseBody resp)]))"

text \<open>
  \<^verbatim>\<open>graceful(next)\<close> hands the handler a \<^verbatim>\<open>connectionCloseWriter\<close> when
  \<^verbatim>\<open>gracefulShutdown\<close> is set and the writer of the server otherwise. \<open>serve\<close> is the
  response after the calls of a handler, with \<^verbatim>\<open>shutdownInitiated\<close> at \<open>si\<close> throughout.
\<close>

definition serve :: "bool \<Rightarrow> bool \<Rightarrow> call list \<Rightarrow> ResponseWriter \<Rightarrow> ResponseWriter" where
  "serve gracefulShutdown si calls w =
     (if gracefulShutdown
      then ResponseWriter (snd (handle (map Call calls) (si, graceful_writer w)))
      else fold rw_call calls w)"

section \<open>java-demo: the proxy relay\<close>







text \<open>Requests, a header canonicaliser and upstreams for the examples.\<close>

definition example_request :: Request where
  "example_request =
     \<lparr>Method = ''POST'',
      URL = \<lparr>Scheme = [], Host = [], Path = ''/nginx/nginx/sleep'', RawQuery = ''min=1s''\<rparr>,
      Header = [''X-Request-Id'' \<mapsto> [''abc-123''], ''Cookie'' \<mapsto> [''k=v'']],
      Body = ''payload''\<rparr>"


definition example_canon :: "string \<Rightarrow> string" where
  "example_canon k = (if k = ''X-Request-ID'' then ''X-Request-Id'' else k)"

definition example_request_repeated :: Request where
  "example_request_repeated =
     \<lparr>Method = ''POST'',
      URL = \<lparr>Scheme = [], Host = [], Path = ''/nginx/sleep'', RawQuery = ''min=1s''\<rparr>,
      Header = [''Tracestate'' \<mapsto> [''a=1'', ''b=2''], ''X-Request-Id'' \<mapsto> [[], ''abc-123'']],
      Body = []\<rparr>"

definition example_Parse :: "URL \<Rightarrow> string \<Rightarrow> string + URL" where
  "example_Parse base loc =
     (if loc = ''/final'' then Inr (base\<lparr>Path := ''/final'', RawQuery := []\<rparr>)
      else Inl ''failed to parse Location header'')"

definition example_upstream :: "Request \<Rightarrow> string + Response" where
  "example_upstream req =
     (if Path (URL req) = ''/final''
      then Inr \<lparr>StatusCode = 200, Location = [], ResponseBody = ''final''\<rparr>
      else Inr \<lparr>StatusCode = 302, Location = ''/final'', ResponseBody = ''moved''\<rparr>)"

section \<open>Properties of the response decorator\<close>

lemma injectHeader_written: "headerWritten (injectHeader si w)"
  by (simp add: injectHeader_def Let_def)

lemma cw_call_written: "injects c \<Longrightarrow> headerWritten (cw_call si c w)"
  by (cases c) (simp_all add: injects_def cw_WriteHeader_def cw_Write_def cw_ReadFrom_def Let_def injectHeader_written)

lemma rw_call_setLog: "setLog (rw_call c w) = setLog w"
  by (cases c) (simp_all add: rw_WriteHeader_def rw_Write_def rw_Flush_def rw_ReadFrom_def io_Copy_def Let_def)

lemma rw_call_header: "header (rw_call c w) = header w"
  by (cases c) (simp_all add: rw_WriteHeader_def rw_Write_def rw_Flush_def rw_ReadFrom_def io_Copy_def Let_def)

lemma cw_call_after:
  "headerWritten w \<Longrightarrow> headerWritten (cw_call si c w) \<and> setLog (ResponseWriter (cw_call si c w)) = setLog (ResponseWriter w)
    \<and> header (ResponseWriter (cw_call si c w)) = header (ResponseWriter w)"
  by (cases c) (simp_all add: cw_WriteHeader_def cw_Write_def cw_Flush_def cw_ReadFrom_def Let_def injectHeader_def
     rw_WriteHeader_def rw_Write_def rw_Flush_def rw_ReadFrom_def io_Copy_def)

lemma handle_after:
  "headerWritten w \<Longrightarrow> headerWritten (snd (handle as (si, w))) \<and> setLog (ResponseWriter (snd (handle as (si, w)))) = setLog (ResponseWriter w)
    \<and> header (ResponseWriter (snd (handle as (si, w)))) = header (ResponseWriter w)"
proof (induction as arbitrary: si w)
  case Nil
  then show ?case by simp
next
  case (Cons a as)
  show ?case
  proof (cases a)
    case (Call c)
    with Cons.prems cw_call_after[of w si c] Cons.IH[of "cw_call si c w" si] show ?thesis by simp
  next
    case ShutdownInitiatedStore
    with Cons show ?thesis by simp
  qed
qed

lemma cw_call_first:
  "\<not> headerWritten w \<Longrightarrow> injects c \<Longrightarrow>
   headerWritten (cw_call si c w) \<and>
   setLog (ResponseWriter (cw_call si c w)) =
     (if si then setLog (ResponseWriter w) @ [(''Connection'', ''close'')] else setLog (ResponseWriter w)) \<and>
   header (ResponseWriter (cw_call si c w)) =
     (if si then (header (ResponseWriter w))(''Connection'' \<mapsto> [''close'']) else header (ResponseWriter w))"
  by (cases c) (simp_all add: injects_def cw_WriteHeader_def cw_Write_def cw_ReadFrom_def Let_def injectHeader_def
     Header_Set_def rw_WriteHeader_def rw_Write_def rw_ReadFrom_def io_Copy_def)

lemma cw_Flush_keeps:
  "headerWritten (cw_call si Flush w) = headerWritten w \<and>
   setLog (ResponseWriter (cw_call si Flush w)) = setLog (ResponseWriter w) \<and>
   header (ResponseWriter (cw_call si Flush w)) = header (ResponseWriter w)"
  by (simp add: cw_Flush_def rw_Flush_def rw_WriteHeader_def)

lemma handle_draining:
  "\<not> headerWritten w \<Longrightarrow> \<exists>a \<in> set as. \<exists>c. a = Call c \<and> injects c \<Longrightarrow>
   setLog (ResponseWriter (snd (handle as (True, w)))) = setLog (ResponseWriter w) @ [(''Connection'', ''close'')] \<and>
   header (ResponseWriter (snd (handle as (True, w)))) = (header (ResponseWriter w))(''Connection'' \<mapsto> [''close''])"
proof (induction as arbitrary: w)
  case Nil
  then show ?case by simp
next
  case (Cons a as)
  show ?case
  proof (cases a)
    case ShutdownInitiatedStore
    with Cons show ?thesis by simp
  next
    case (Call c)
    show ?thesis
    proof (cases "injects c")
      case True
      from cw_call_first[OF Cons.prems(1) True, of True]
      have w: "headerWritten (cw_call True c w)"
        and l: "setLog (ResponseWriter (cw_call True c w)) = setLog (ResponseWriter w) @ [(''Connection'', ''close'')]"
        and h: "header (ResponseWriter (cw_call True c w)) = (header (ResponseWriter w))(''Connection'' \<mapsto> [''close''])"
        by simp_all
      from handle_after[OF w, of as True] l h Call show ?thesis by simp
    next
      case False
      then have c: "c = Flush" by (simp add: injects_def)
      with Cons.prems Call have ex: "\<exists>a \<in> set as. \<exists>c. a = Call c \<and> injects c"
        by (auto simp: injects_def)
      from cw_Flush_keeps[of True w]
      have k: "headerWritten (cw_Flush w) = headerWritten w"
        "setLog (ResponseWriter (cw_Flush w)) = setLog (ResponseWriter w)"
        "header (ResponseWriter (cw_Flush w)) = header (ResponseWriter w)"
        by simp_all
      from Cons.prems(1) k(1) have nw: "\<not> headerWritten (cw_Flush w)" by simp
      from Cons.IH[OF nw ex] have
        "setLog (ResponseWriter (snd (handle as (True, cw_Flush w)))) = setLog (ResponseWriter w) @ [(''Connection'', ''close'')]"
        "header (ResponseWriter (snd (handle as (True, cw_Flush w)))) = (header (ResponseWriter w))(''Connection'' \<mapsto> [''close''])"
        by (simp_all only: k)
      with Call c show ?thesis by (simp only: handle.simps cw_call.simps)
    qed
  qed
qed

lemma handle_append: "handle (as @ bs) s = handle bs (handle as s)"
  by (induction as s rule: handle.induct) simp_all

lemma handle_flushes:
  "\<forall>a \<in> set pre. a = Call Flush \<Longrightarrow>
   fst (handle pre (si, w)) = si \<and>
   headerWritten (snd (handle pre (si, w))) = headerWritten w \<and>
   setLog (ResponseWriter (snd (handle pre (si, w)))) = setLog (ResponseWriter w) \<and>
   header (ResponseWriter (snd (handle pre (si, w)))) = header (ResponseWriter w)"
proof (induction pre arbitrary: w)
  case Nil
  then show ?case by simp
next
  case (Cons a pre)
  then have a: "a = Call Flush" and rest: "\<forall>a \<in> set pre. a = Call Flush" by simp_all
  from Cons.IH[OF rest, of "cw_call si Flush w"] cw_Flush_keeps[of si w] a show ?case by simp
qed


text \<open>
  Claim C2. While the phase is Draining (\<^verbatim>\<open>shutdownInitiated\<close> is true for the whole
  response), a decorated response that is written to at least once (by \<^verbatim>\<open>WriteHeader\<close>,
  \<^verbatim>\<open>Write\<close> or \<^verbatim>\<open>ReadFrom\<close>, in any number and order, with \<^verbatim>\<open>Flush\<close> calls anywhere)
  has \<^verbatim>\<open>Header().Set("Connection", "close")\<close> executed exactly once, and the header map
  holds the value at the end.
\<close>

theorem close_header_set_exactly_once:
  assumes "\<exists>a \<in> set as. \<exists>c. a = Call c \<and> injects c"
  shows "closeSets (ResponseWriter (snd (handle as (True, graceful_writer rw)))) = closeSets rw + 1
       \<and> header (ResponseWriter (snd (handle as (True, graceful_writer rw)))) ''Connection'' = Some [''close'']"
  using handle_draining[of "graceful_writer rw" as, OF _ assms]
  by (simp add: graceful_writer_def closeSets_def)

theorem close_header_set_exactly_once_witness:
  "closeSets (ResponseWriter (snd (handle
      [Call (WriteHeader 200), Call (Write ''Slept''), Call Flush, Call (Write '' for''), Call (ReadFrom ''1s'')]
      (True, graceful_writer newResponse)))) = 1
   \<and> header (ResponseWriter (snd (handle
      [Call (WriteHeader 200), Call (Write ''Slept''), Call Flush, Call (Write '' for''), Call (ReadFrom ''1s'')]
      (True, graceful_writer newResponse)))) ''Connection'' = Some [''close'']"
  using close_header_set_exactly_once
    [of "[Call (WriteHeader 200), Call (Write ''Slept''), Call Flush, Call (Write '' for''), Call (ReadFrom ''1s'')]"
        newResponse]
  by (simp add: injects_def closeSets_def newResponse_def)

text \<open>
  Claim C9. The decision is taken at the first \<^verbatim>\<open>WriteHeader\<close>, \<^verbatim>\<open>Write\<close> or \<^verbatim>\<open>ReadFrom\<close>
  of a decorated response and never again: when that call runs while
  \<^verbatim>\<open>shutdownInitiated\<close> is still false, no later call of the same response sets
  \<^verbatim>\<open>Connection: close\<close>, whatever follows, the store of \<^verbatim>\<open>shutdownInitiated\<close> and
  further writes included.
\<close>

theorem decision_taken_at_first_write:
  assumes "\<forall>a \<in> set pre. a = Call Flush" and "injects c"
  shows "setLog (ResponseWriter (snd (handle (pre @ Call c # post) (False, graceful_writer rw)))) = setLog rw
       \<and> header (ResponseWriter (snd (handle (pre @ Call c # post) (False, graceful_writer rw)))) = header rw"
proof -
  obtain si1 w1 where s1: "handle pre (False, graceful_writer rw) = (si1, w1)" by (cases "handle pre (False, graceful_writer rw)")
  from handle_flushes[OF assms(1), of False "graceful_writer rw"] s1
  have si1: "si1 = False" and nw: "\<not> headerWritten w1"
    and l1: "setLog (ResponseWriter w1) = setLog rw" and h1: "header (ResponseWriter w1) = header rw"
    by (simp_all add: graceful_writer_def)
  from cw_call_first[OF nw assms(2), of False]
  have w2: "headerWritten (cw_call False c w1)"
    and l2: "setLog (ResponseWriter (cw_call False c w1)) = setLog rw"
    and h2: "header (ResponseWriter (cw_call False c w1)) = header rw"
    using l1 h1 by simp_all
  have "handle (pre @ Call c # post) (False, graceful_writer rw) = handle post (False, cw_call False c w1)"
    using s1 si1 by (simp add: handle_append)
  with handle_after[OF w2, of post False] l2 h2 show ?thesis by simp
qed

theorem decision_taken_at_first_write_witness:
  "setLog (ResponseWriter (snd (handle
      ([Call Flush] @ Call (Write ''Slept'') # [ShutdownInitiatedStore, Call (Write '' for 1s''), Call (WriteHeader 200)])
      (False, graceful_writer newResponse)))) = []
   \<and> header (ResponseWriter (snd (handle
      ([Call Flush] @ Call (Write ''Slept'') # [ShutdownInitiatedStore, Call (Write '' for 1s''), Call (WriteHeader 200)])
      (False, graceful_writer newResponse)))) ''Connection'' = None"
  using decision_taken_at_first_write
    [of "[Call Flush]" "Write ''Slept''"
        "[ShutdownInitiatedStore, Call (Write '' for 1s''), Call (WriteHeader 200)]" newResponse]
  by (simp add: injects_def newResponse_def)

text \<open>
  When the first call of the handler is a \<^verbatim>\<open>WriteHeader\<close>, a \<^verbatim>\<open>Write\<close> or a \<^verbatim>\<open>ReadFrom\<close> of a
  source that is not empty, the header that is committed, and so the response that is
  sent, carries \<^verbatim>\<open>Connection: close\<close>.
\<close>

lemma close_header_sent:
  assumes "\<not> wroteHeader rw" and "c = WriteHeader code \<or> c = Write b \<or> (c = ReadFrom b \<and> b \<noteq> [])"
  shows "sentHeader (ResponseWriter (snd (handle (Call c # as) (True, graceful_writer rw)))) ''Connection''
           = Some [''close'']"
proof -
  let ?w1 = "cw_call True c (graceful_writer rw)"
  from assms have 1: "headerWritten ?w1 \<and> wroteHeader (ResponseWriter ?w1)
      \<and> sentHeader (ResponseWriter ?w1) ''Connection'' = Some [''close'']"
    by (auto simp: graceful_writer_def cw_WriteHeader_def cw_Write_def cw_ReadFrom_def injectHeader_def
        Header_Set_def rw_WriteHeader_def rw_Write_def rw_ReadFrom_def io_Copy_def Let_def)
  have keep: "\<And>w si. wroteHeader (ResponseWriter w) \<Longrightarrow>
      wroteHeader (ResponseWriter (snd (handle as (si, w)))) \<and>
      sentHeader (ResponseWriter (snd (handle as (si, w)))) = sentHeader (ResponseWriter w)"
  proof (induction as)
    case Nil
    then show ?case by simp
  next
    case (Cons a as)
    show ?case
    proof (cases a)
      case ShutdownInitiatedStore
      with Cons show ?thesis by simp
    next
      case (Call c')
      have "wroteHeader (ResponseWriter (cw_call si c' w)) \<and>
            sentHeader (ResponseWriter (cw_call si c' w)) = sentHeader (ResponseWriter w)"
        using Cons.prems
        by (cases c') (simp_all add: cw_WriteHeader_def cw_Write_def cw_Flush_def cw_ReadFrom_def injectHeader_def
            Header_Set_def rw_WriteHeader_def rw_Write_def rw_Flush_def rw_ReadFrom_def io_Copy_def Let_def)
      with Cons.IH[of "cw_call si c' w" si] Call show ?thesis by simp
    qed
  qed
  from keep[of ?w1 True] 1 show ?thesis by simp
qed

section \<open>Properties of the coordinator and the readiness handler\<close>

lemma coordinate_keeps_flag: "shutdownInitiated s \<Longrightarrow> shutdownInitiated (coordinate g e s)"
  by (cases e) simp_all

lemma coordinate_past_sleep:
  "pc s \<notin> {AwaitSignal, PreShutdownSleep} \<Longrightarrow> pc (coordinate g e s) \<notin> {AwaitSignal, PreShutdownSleep}"
  by (cases e) auto

lemma coordinate_inv:
  "(pc s \<notin> {AwaitSignal, PreShutdownSleep} \<longrightarrow> shutdownInitiated s) \<Longrightarrow>
   (pc (coordinate g e s) \<notin> {AwaitSignal, PreShutdownSleep} \<longrightarrow> shutdownInitiated (coordinate g e s))"
  by (cases e) auto

lemma run_inv:
  "(pc s \<notin> {AwaitSignal, PreShutdownSleep} \<longrightarrow> shutdownInitiated s) \<Longrightarrow>
   (pc (coordinator_run g es s) \<notin> {AwaitSignal, PreShutdownSleep} \<longrightarrow> shutdownInitiated (coordinator_run g es s))"
proof (induction es arbitrary: s)
  case Nil
  then show ?case by simp
next
  case (Cons e es)
  from Cons.IH[OF coordinate_inv[OF Cons.prems]] show ?case by simp
qed

lemma run_keeps_flag: "shutdownInitiated s \<Longrightarrow> shutdownInitiated (coordinator_run g es s)"
  by (induction es arbitrary: s) (simp_all add: coordinate_keeps_flag)

lemma run_append: "coordinator_run g (es @ es') s = coordinator_run g es' (coordinator_run g es s)"
  by (induction es arbitrary: s) simp_all

lemma ready_draining:
  "\<not> wroteHeader w \<Longrightarrow>
   status (ready True w) = 503 \<and> sentHeader (ready True w) ''Connection'' = Some [''close''] \<and> body (ready True w) = body w"
  by (simp add: ready_def rw_WriteHeader_def Header_Set_def)


text \<open>
  Claim C3, as the code has it. The signal does not flip \<^verbatim>\<open>shutdownInitiated\<close>:
  \<^verbatim>\<open>shutdown\<close> first sleeps for \<^verbatim>\<open>shutdownSleepDuration\<close>. Once that sleep has elapsed
  (the main goroutine stands after \<^verbatim>\<open>shutdownInitiated.Store(true)\<close>), in every state
  reachable from there \<^verbatim>\<open>ready\<close> answers 503 with \<^verbatim>\<open>Connection: close\<close>, never 200.
\<close>

theorem ready_unavailable_after_store:
  assumes "pc (coordinator_run g es initial) \<notin> {AwaitSignal, PreShutdownSleep}" and "\<not> wroteHeader w"
  shows "status (ready (shutdownInitiated (coordinator_run g (es @ es') initial)) w) = 503
       \<and> sentHeader (ready (shutdownInitiated (coordinator_run g (es @ es') initial)) w) ''Connection'' = Some [''close'']"
proof -
  have "pc initial \<notin> {AwaitSignal, PreShutdownSleep} \<longrightarrow> shutdownInitiated initial"
    by (simp add: initial_def)
  from run_inv[OF this, of g es] assms(1) have "shutdownInitiated (coordinator_run g es initial)" by simp
  then have "shutdownInitiated (coordinator_run g (es @ es') initial)"
    by (simp add: run_append run_keeps_flag)
  with ready_draining[OF assms(2)] show ?thesis by simp
qed


theorem ready_unavailable_after_store_witness:
  "status (ready (shutdownInitiated (coordinator_run True ([Signal, SleepElapsed] @ [Signal, GracefulChanClosed]) initial)) newResponse) = 503
   \<and> sentHeader (ready (shutdownInitiated (coordinator_run True ([Signal, SleepElapsed] @ [Signal, GracefulChanClosed]) initial)) newResponse) ''Connection'' = Some [''close'']"
  using ready_unavailable_after_store[of True "[Signal, SleepElapsed]" newResponse "[Signal, GracefulChanClosed]"]
  by (simp add: initial_def newResponse_def)


text \<open>
  Claim C3 as stated fails: after the signal, while \<^verbatim>\<open>shutdown\<close> is in its pre-shutdown
  sleep, \<^verbatim>\<open>ready\<close> still answers 200 \<^verbatim>\<open>OK\<close> without \<^verbatim>\<open>Connection: close\<close>.
\<close>

theorem ready_ok_during_pre_shutdown_sleep:
  "pc (coordinator_run True [Signal] initial) = PreShutdownSleep
   \<and> status (ready (shutdownInitiated (coordinator_run True [Signal] initial)) newResponse) = 200
   \<and> body (ready (shutdownInitiated (coordinator_run True [Signal] initial)) newResponse) = ''OK''
   \<and> sentHeader (ready (shutdownInitiated (coordinator_run True [Signal] initial)) newResponse) ''Connection'' = None"
  by (simp add: initial_def ready_def rw_Write_def rw_WriteHeader_def newResponse_def)


section \<open>Properties of the connection tracker\<close>

lemma sint_small: "k < 2 ^ 31 \<Longrightarrow> sint (word_of_nat k :: 32 word) = int k"
  by (simp add: signed_of_nat signed_take_bit_int_eq_self)

lemma word_of_nat_diff': "b \<le> a \<Longrightarrow> (word_of_nat a :: 32 word) - word_of_nat b = word_of_nat (a - b)"
  by (simp add: of_nat_diff)


lemma ConnState_count:
  "ConnState c st n = n + (if st = StateNew then 1 else 0) - (if st = StateClosed \<or> st = StateHijacked then 1 else 0)"
  by (cases st) simp_all

lemma replay_count: "replay evs n = n + word_of_nat (opens evs) - word_of_nat (closes evs)"
proof (induction evs arbitrary: n)
  case Nil
  then show ?case by (simp add: opens_def closes_def)
next
  case (Cons e evs)
  obtain c st where e: "e = (c, st)" by (cases e)
  show ?case unfolding e by (cases st) (simp_all add: Cons.IH opens_def closes_def)
qed

lemma transport_ok_balance:
  "transport_ok live evs \<Longrightarrow> closes evs \<le> length live + opens evs"
proof (induction live evs rule: transport_ok.induct)
  case (1 live)
  then show ?case by (simp add: opens_def closes_def)
next
  case (2 live c evs)
  then show ?case by (simp add: opens_def closes_def)
next
  case (3 live c evs)
  then have "closes evs \<le> length (removeAll c live) + opens evs" by simp
  moreover from 3 have "length (removeAll c live) < length live"
    by (metis length_removeAll_less transport_ok.simps(3))
  ultimately show ?case by (simp add: opens_def closes_def)
next
  case (4 live c evs)
  then have "closes evs \<le> length (removeAll c live) + opens evs" by simp
  moreover from 4 have "length (removeAll c live) < length live"
    by (metis length_removeAll_less transport_ok.simps(4))
  ultimately show ?case by (simp add: opens_def closes_def)
next
  case (5 live c evs)
  then show ?case by (simp add: opens_def closes_def)
next
  case (6 live c evs)
  then show ?case by (simp add: opens_def closes_def)
qed

lemma transport_ok_take: "transport_ok live evs \<Longrightarrow> transport_ok live (take n evs)"
proof (induction live evs arbitrary: n rule: transport_ok.induct)
  case (1 live)
  then show ?case by simp
qed (case_tac n; simp)+

lemma opens_le_length: "opens evs \<le> length evs"
  by (simp add: opens_def)


lemma opens_all_new: "opens (map (\<lambda>c. (c, StateNew)) cs) = length cs"
  by (induction cs) (simp_all add: opens_def)

lemma closes_all_new: "closes (map (\<lambda>c. (c, StateNew)) cs) = 0"
  by (induction cs) (simp_all add: closes_def)

lemma transport_ok_all_new:
  "distinct cs \<Longrightarrow> set cs \<inter> set live = {} \<Longrightarrow> transport_ok live (map (\<lambda>c. (c, StateNew)) cs)"
  by (induction cs arbitrary: live) auto

text \<open>
  Claim C4, as the code has it. For every sequence of connection-open and
  connection-close events as the transport reports them (a connection is closed or
  hijacked only while it is open) in which fewer than \<open>2 ^ 31\<close> connections are open
  after every prefix, after every prefix \<^verbatim>\<open>numConnections\<close> is the number of opens minus
  the number of closes, and is not negative.
\<close>

theorem tracker_count_under_transport_contract:
  assumes "transport_ok [] evs"
    and "\<forall>n \<le> length evs. int (opens (take n evs)) - int (closes (take n evs)) < 2 ^ 31"
  shows "\<forall>n \<le> length evs.
           sint (replay (take n evs) 0) = int (opens (take n evs)) - int (closes (take n evs))
         \<and> 0 \<le> sint (replay (take n evs) 0)"
proof (intro allI impI)
  fix n assume n: "n \<le> length evs"
  let ?p = "take n evs"
  from transport_ok_balance[OF transport_ok_take[OF assms(1), of n]]
  have le: "closes ?p \<le> opens ?p" by simp
  from assms(2) n have "int (opens ?p) - int (closes ?p) < 2 ^ 31" by blast
  with le have small: "opens ?p - closes ?p < 2 ^ 31"
    by (simp add: of_nat_diff[symmetric] del: of_nat_diff)
  have "replay ?p 0 = word_of_nat (opens ?p) - word_of_nat (closes ?p)"
    by (simp add: replay_count)
  also have "\<dots> = word_of_nat (opens ?p - closes ?p)"
    by (rule word_of_nat_diff'[OF le])
  finally have "sint (replay ?p 0) = int (opens ?p - closes ?p)"
    by (simp only: sint_small[OF small])
  with le show "sint (replay ?p 0) = int (opens ?p) - int (closes ?p) \<and> 0 \<le> sint (replay ?p 0)"
    by (simp add: of_nat_diff)
qed

theorem tracker_count_under_transport_contract_witness:
  "sint (replay [(1, StateNew), (2, StateNew), (1, StateActive), (1, StateClosed), (2, StateHijacked), (3, StateNew)] 0)
     = int (opens [(1, StateNew), (2, StateNew), (1, StateActive), (1, StateClosed), (2, StateHijacked), (3, StateNew)])
       - int (closes [(1, StateNew), (2, StateNew), (1, StateActive), (1, StateClosed), (2, StateHijacked), (3, StateNew)])
   \<and> 0 \<le> sint (replay [(1, StateNew), (2, StateNew), (1, StateActive), (1, StateClosed), (2, StateHijacked), (3, StateNew)] 0)
   \<and> sint (replay [(1, StateNew), (2, StateNew), (1, StateActive), (1, StateClosed), (2, StateHijacked), (3, StateNew)] 0) = 1"
proof -
  let ?evs = "[(1, StateNew), (2, StateNew), (1, StateActive), (1, StateClosed), (2, StateHijacked), (3::nat, StateNew)]"
  have ok: "transport_ok [] ?evs" by simp
  have "\<forall>n \<le> length ?evs. int (opens (take n ?evs)) - int (closes (take n ?evs)) < 2 ^ 31"
  proof (intro allI impI)
    fix n assume "n \<le> length ?evs"
    have "opens (take n ?evs) \<le> length (take n ?evs)" by (rule opens_le_length)
    also have "\<dots> \<le> 6" by simp
    finally show "int (opens (take n ?evs)) - int (closes (take n ?evs)) < 2 ^ 31" by simp
  qed
  from tracker_count_under_transport_contract[OF ok this, THEN spec, of 6]
  show ?thesis by (simp add: opens_def closes_def)
qed

text \<open>
  Claim C4 as stated fails, since \<^verbatim>\<open>numConnections\<close> is an \<^verbatim>\<open>Int32\<close>: the sequence that
  opens \<open>2 ^ 31\<close> connections and closes none follows the contract of the transport, and
  leaves the count at \<open>- 2 ^ 31\<close>, which is negative and is not opens minus closes.
\<close>

theorem tracker_wraps_at_int32:
  "transport_ok [] (map (\<lambda>c. (c, StateNew)) [0..<2 ^ 31])
   \<and> sint (replay (map (\<lambda>c. (c, StateNew)) [0..<2 ^ 31]) 0) = - (2 ^ 31)
   \<and> int (opens (map (\<lambda>c. (c, StateNew)) [0..<2 ^ 31]))
       - int (closes (map (\<lambda>c. (c, StateNew)) [0..<2 ^ 31])) = 2 ^ 31"
proof -
  have "replay (map (\<lambda>c. (c, StateNew)) [0..<2 ^ 31]) 0 = (word_of_nat (2 ^ 31) :: 32 word)"
    by (simp only: replay_count opens_all_new closes_all_new length_upt) simp
  also have "(word_of_nat (2 ^ 31) :: 32 word) = 2147483648" by simp
  finally have "sint (replay (map (\<lambda>c. (c, StateNew)) [0..<2 ^ 31]) 0) = - (2 ^ 31)"
    by simp
  moreover have "transport_ok [] (map (\<lambda>c. (c, StateNew)) [0..<2 ^ 31])"
    by (rule transport_ok_all_new) simp_all
  moreover have "int (opens (map (\<lambda>c. (c, StateNew)) [0..<2 ^ 31]))
       - int (closes (map (\<lambda>c. (c, StateNew)) [0..<2 ^ 31])) = 2 ^ 31"
    by (simp only: opens_all_new closes_all_new length_upt) simp
  ultimately show ?thesis by simp
qed

section \<open>Properties of the drain wait\<close>

text \<open>
  go-demo: whatever the connection count does, \<^verbatim>\<open>doGracefulShutdown\<close> returns no later
  than \<^verbatim>\<open>clientSideIdleTimeout\<close>; with a count that never reaches zero it returns exactly
  then, and with no connection at the first tick it returns at that tick.
\<close>

lemma gracefulWait_bounded: "fst (gracefulWait f t) \<le> clientSideIdleTimeout"
proof (induction f t rule: gracefulWait.induct)
  case (1 f t)
  note unfold = gracefulWait.simps[of f t]
  show ?case
  proof (cases "clientSideIdleTimeout \<le> t")
    case True
    then show ?thesis by (simp add: unfold)
  next
    case False
    note nt = this
    show ?thesis
    proof (cases "f t = 0")
      case True
      with nt show ?thesis by (simp add: unfold)
    next
      case False
      from "1.IH"[OF nt False] nt False show ?thesis by (simp add: unfold)
    qed
  qed
qed

lemma gracefulWait_leak:
  "\<forall>t. f t \<noteq> 0 \<Longrightarrow> gracefulWait f t = (clientSideIdleTimeout, Timer)"
proof (induction f t rule: gracefulWait.induct)
  case (1 f t)
  show ?case
  proof (cases "clientSideIdleTimeout \<le> t")
    case True
    then show ?thesis by (simp add: gracefulWait.simps[of f t])
  next
    case False
    with "1.prems" have "f t \<noteq> 0" by simp
    from "1.IH"[OF False this "1.prems"] False this show ?thesis
      by (simp add: gracefulWait.simps[of f t])
  qed
qed

lemma doGracefulShutdown_bounded: "fst (doGracefulShutdown f) \<le> clientSideIdleTimeout"
  by (simp add: doGracefulShutdown_def gracefulWait_bounded)

lemma doGracefulShutdown_leak:
  "\<forall>t. f t \<noteq> 0 \<Longrightarrow> doGracefulShutdown f = (clientSideIdleTimeout, Timer)"
  by (simp add: doGracefulShutdown_def gracefulWait_leak)

lemma doGracefulShutdown_idle: "f tickerPeriod = 0 \<Longrightarrow> doGracefulShutdown f = (tickerPeriod, Ticker)"
  by (simp add: doGracefulShutdown_def gracefulWait.simps[of f "500"] tickerPeriod_def clientSideIdleTimeout_def)

text \<open>
  go-demo: when the drain ends at the first tick and the process is still running at
  15000 (requests in flight keep \<^verbatim>\<open>server.Shutdown\<close> waiting), the timer closes the channel
  a second time; with a count that never reaches zero it does not.
\<close>

lemma timer_closes_again_idle:
  "f tickerPeriod = 0 \<Longrightarrow> timer_closes_again f exitAt = (clientSideIdleTimeout \<le> exitAt)"
  by (simp add: timer_closes_again_def doGracefulShutdown_idle)

lemma timer_closes_again_leak:
  "\<forall>t. f t \<noteq> 0 \<Longrightarrow> \<not> timer_closes_again f exitAt"
  by (simp add: timer_closes_again_def doGracefulShutdown_leak)

lemma drainLoop_exit:
  assumes "drainLoop g k = Some r"
  shows "\<exists>j \<ge> k. \<forall>c. g j = Inr c \<longrightarrow> c \<le> 0"
proof (rule drainLoop.raw_induct[where P = "\<lambda>g k r. \<exists>j \<ge> k. \<forall>c. g j = Inr c \<longrightarrow> c \<le> 0", OF _ assms])
  fix loop :: "(nat \<Rightarrow> string + int) \<Rightarrow> nat \<Rightarrow> drain_result option" and g k r
  assume IH: "\<And>g k r. loop g k = Some r \<Longrightarrow> \<exists>j \<ge> k. \<forall>c. g j = Inr c \<longrightarrow> c \<le> 0"
    and step: "(case g k of Inl err \<Rightarrow> Some (GetConnectionsFailed k err)
               | Inr count \<Rightarrow> if count \<le> 0 then Some (ServerClosed k) else loop g (Suc k)) = Some r"
  show "\<exists>j \<ge> k. \<forall>c. g j = Inr c \<longrightarrow> c \<le> 0"
  proof (cases "g k")
    case (Inl err)
    then have "\<forall>c. g k = Inr c \<longrightarrow> c \<le> 0" by simp
    then show ?thesis by blast
  next
    case (Inr count)
    show ?thesis
    proof (cases "count \<le> 0")
      case True
      with Inr have "\<forall>c. g k = Inr c \<longrightarrow> c \<le> 0" by simp
      then show ?thesis by blast
    next
      case False
      with Inr step have "loop g (Suc k) = Some r" by simp
      from IH[OF this] obtain j where "Suc k \<le> j" "\<forall>c. g j = Inr c \<longrightarrow> c \<le> 0" by blast
      then have "k \<le> j \<and> (\<forall>c. g j = Inr c \<longrightarrow> c \<le> 0)" by simp
      then show ?thesis by blast
    qed
  qed
qed


text \<open>
  Claim C1 at node-demo: with \<^verbatim>\<open>ENABLE_DRAIN\<close> set, \<^verbatim>\<open>DRAIN_TIMEOUT\<close> at its default 5000
  and one connection that stays open, \<^verbatim>\<open>gracefulShutdown\<close> never calls \<^verbatim>\<open>server.close\<close>:
  \<^verbatim>\<open>DRAIN_TIMEOUT\<close> only decides whether to drain, no timer is armed with it.
\<close>

theorem node_drain_never_stops:
  "node_gracefulShutdown True 5000 (\<lambda>k. Inr 1) = None"
proof (cases "node_gracefulShutdown True 5000 (\<lambda>k. Inr 1)")
  case None
  then show ?thesis .
next
  case (Some r)
  then have "drainLoop (\<lambda>k. Inr 1) 0 = Some r"
    by (simp add: node_gracefulShutdown_def drainConnections_def)
  from drainLoop_exit[OF this] show ?thesis by simp
qed

theorem node_drain_never_stops_witness:
  "node_gracefulShutdown True 5000 (\<lambda>k. Inr 1) \<noteq> Some (ServerClosed 0)
   \<and> node_gracefulShutdown False 5000 (\<lambda>k. Inr 1) = Some (ServerClosed 0)"
  using node_drain_never_stops by (simp add: node_gracefulShutdown_def)

section \<open>Properties of the latency sampler\<close>

subsection \<open>Weighted mode\<close>

lemma Split_nonempty: "Split s sep \<noteq> []"
  by (induction s) (auto split: list.splits)

lemma SplitN2_parts:
  "SplitN2 pair sep =
     (if sep \<in> set pair then [takeWhile (\<lambda>c. c \<noteq> sep) pair, tl (dropWhile (\<lambda>c. c \<noteq> sep) pair)] else [pair])"
  by (simp add: SplitN2_def)

lemma map_filter_Cons_Some: "f x = Some y \<Longrightarrow> List.map_filter f (x # xs) = y # List.map_filter f xs"
  by (simp add: List.map_filter_def)

lemma map_filter_length: "\<forall>x \<in> set xs. f x \<noteq> None \<Longrightarrow> length (List.map_filter f xs) = length xs"
  by (induction xs) (auto simp: List.map_filter_def)

lemma pdf_loop_good:
  "\<forall>pair \<in> set pairs. \<not> pair_bad R pair \<Longrightarrow>
   pdf_loop R pairs vs ps t =
     Inr (vs @ List.map_filter (pair_duration R) pairs,
          ps @ List.map_filter (pair_weight R) pairs,
          foldl (f_add R) t (List.map_filter (pair_weight R) pairs))"
proof (induction pairs arbitrary: vs ps t)
  case Nil
  then show ?case by (simp add: List.map_filter_def)
next
  case (Cons pair pairs)
  from Cons.prems have colon: "CHR '':'' \<in> set pair"
    and "pair_duration R pair \<noteq> None" and "pair_weight R pair \<noteq> None"
    by (simp_all add: pair_bad_def)
  then obtain dur prob where d: "pair_duration R pair = Some dur" and p: "pair_weight R pair = Some prob"
    by blast
  from d colon have d': "ParseDuration R (takeWhile (\<lambda>c. c \<noteq> CHR '':'') pair) = Some dur"
    by (simp add: pair_duration_def)
  from p colon have p': "Sscanf_f R (tl (dropWhile (\<lambda>c. c \<noteq> CHR '':'') pair)) = Some prob"
    by (simp add: pair_weight_def)
  from Cons.prems have rest: "\<forall>pair \<in> set pairs. \<not> pair_bad R pair" by simp
  have step: "pdf_loop R (pair # pairs) vs ps t = pdf_loop R pairs (vs @ [dur]) (ps @ [prob]) (f_add R t prob)"
    using colon d' p' by (simp add: SplitN2_parts)
  show ?case
    unfolding step Cons.IH[OF rest]
    using d p by (simp add: List.map_filter_def)
qed

lemma pdf_loop_bad:
  "\<exists>pair \<in> set pairs. pair_bad R pair \<Longrightarrow> \<exists>msg. pdf_loop R pairs vs ps t = Inl msg"
proof (induction pairs arbitrary: vs ps t)
  case Nil
  then show ?case by simp
next
  case (Cons pair pairs)
  show ?case
  proof (cases "pair_bad R pair")
    case True
    then show ?thesis
      by (auto simp: pair_bad_def pair_duration_def pair_weight_def SplitN2_parts split: option.splits)
  next
    case False
    with Cons.prems have "\<exists>pair \<in> set pairs. pair_bad R pair" by simp
    from Cons.IH[OF this] show ?thesis
      by (auto simp: SplitN2_parts split: option.splits)
  qed
qed

lemma cdf_loop_cumulative:
  "cdf_loop R ps c = map (\<lambda>i. foldl (f_add R) c (take (Suc i) ps)) [0..<length ps]"
proof (induction ps arbitrary: c)
  case Nil
  then show ?case by simp
next
  case (Cons p ps)
  have "map (\<lambda>i. foldl (f_add R) c (take (Suc i) (p # ps))) [0..<length (p # ps)]
      = foldl (f_add R) c (take (Suc 0) (p # ps))
        # map (\<lambda>i. foldl (f_add R) c (take (Suc i) (p # ps))) (map Suc [0..<length ps])"
    by (simp add: upt_conv_Cons map_Suc_upt del: upt_Suc)
  also have "\<dots> = f_add R c p # map (\<lambda>i. foldl (f_add R) (f_add R c p) (take (Suc i) ps)) [0..<length ps]"
    by (simp add: comp_def)
  finally show ?case by (simp add: Cons.IH)
qed

lemma inverse_loop_first:
  "length values = i + length cdf \<Longrightarrow> values \<noteq> [] \<Longrightarrow>
   inverse_loop R r values i cdf =
     Inr (case find (\<lambda>(cp, v). f_le R r cp) (zip cdf (drop i values)) of
            Some (cp, v) \<Rightarrow> v
          | None \<Rightarrow> last values)"
proof (induction cdf arbitrary: i)
  case Nil
  then show ?case by (simp add: last_conv_nth)
next
  case (Cons cp cdf)
  then have i: "i < length values" by simp
  then have dr: "drop i values = values ! i # drop (Suc i) values"
    by (simp add: Cons_nth_drop_Suc)
  from Cons.prems have "length values = Suc i + length cdf" by simp
  from Cons.IH[OF this Cons.prems(2)] i show ?case by (simp add: dr)
qed

lemma find_member: "find P xs = Some x \<Longrightarrow> x \<in> set xs"
  by (induction xs) (auto split: if_splits)

lemma first_at_least_member:
  "values \<noteq> [] \<Longrightarrow> first_at_least R r cdf values \<in> set values"
  by (auto simp: first_at_least_def split: option.splits dest!: find_member set_zip_rightD)

lemma sleep_pdf_malformed:
  assumes "\<exists>pair \<in> set (Split pdf CHR '',''). pair_bad R pair"
  shows "\<exists>msg. sleep_pdf R pdf r = BadRequest msg"
proof -
  from pdf_loop_bad[OF assms, of "[]" "[]" "f_zero R"]
  obtain msg where "pdf_loop R (Split pdf CHR '','') [] [] (f_zero R) = Inl msg" by blast
  then show ?thesis by (simp add: sleep_pdf_def)
qed

lemma pdf_loop_wellformed:
  assumes "\<forall>pair \<in> set (Split pdf CHR '',''). \<not> pair_bad R pair"
  shows "pdf_loop R (Split pdf CHR '','') [] [] (f_zero R)
         = Inr (listed_durations R pdf, listed_weights R pdf, total_weight R pdf)"
  using pdf_loop_good[OF assms, of "[]" "[]" "f_zero R"]
  by (simp add: listed_durations_def listed_weights_def total_weight_def)

lemma sleep_pdf_zero_total:
  assumes "\<forall>pair \<in> set (Split pdf CHR '',''). \<not> pair_bad R pair"
    and "f_le R (total_weight R pdf) (f_zero R)"
  shows "sleep_pdf R pdf r = BadRequest ''Total probability in pdf must be greater than 0\<newline>''"
  using assms(2) by (simp add: sleep_pdf_def pdf_loop_wellformed[OF assms(1)])

lemma listed_lengths:
  assumes "\<forall>pair \<in> set (Split pdf CHR '',''). \<not> pair_bad R pair"
  shows "length (listed_durations R pdf) = length (Split pdf CHR '','')"
    and "length (listed_weights R pdf) = length (Split pdf CHR '','')"
  using assms
  by (simp_all add: listed_durations_def listed_weights_def map_filter_length pair_bad_def)

lemma sleep_pdf_valid:
  assumes "\<not> invalid_pdf R pdf"
  shows "sleep_pdf R pdf r =
           Slept (first_at_least R r (cumulative R (normalized_weights R pdf)) (listed_durations R pdf))"
    and "first_at_least R r (cumulative R (normalized_weights R pdf)) (listed_durations R pdf)
           \<in> set (listed_durations R pdf)"
proof -
  from assms have wf: "\<forall>pair \<in> set (Split pdf CHR '',''). \<not> pair_bad R pair"
    and pos: "\<not> f_le R (total_weight R pdf) (f_zero R)"
    by (simp_all add: invalid_pdf_def)
  let ?durs = "listed_durations R pdf"
  let ?probs = "normalized_weights R pdf"
  have len: "length ?durs = length ?probs"
    by (simp add: normalized_weights_def listed_lengths[OF wf])
  have ne: "?durs \<noteq> []"
    using listed_lengths(1)[OF wf] Split_nonempty[of pdf "CHR '',''"] by auto
  have cdf: "cdf_loop R ?probs (f_zero R) = cumulative R ?probs"
    by (simp add: cdf_loop_cumulative cumulative_def)
  have "length ?durs = 0 + length (cumulative R ?probs)"
    by (simp add: len cumulative_def)
  from inverse_loop_first[OF this ne, of R r]
  have "buildInverseDiscreteCDF R ?durs ?probs r
          = Inr (first_at_least R r (cumulative R ?probs) ?durs)"
    by (simp add: buildInverseDiscreteCDF_def cdf first_at_least_def)
  then show "sleep_pdf R pdf r = Slept (first_at_least R r (cumulative R ?probs) ?durs)"
    using pos
    by (simp add: sleep_pdf_def pdf_loop_wellformed[OF wf] normalized_weights_def Let_def)
  show "first_at_least R r (cumulative R ?probs) ?durs \<in> set ?durs"
    by (rule first_at_least_member[OF ne])
qed

lemma sleep_pdf_invalid:
  assumes "invalid_pdf R pdf"
  shows "\<exists>msg. sleep_pdf R pdf r = BadRequest msg"
proof (cases "\<exists>pair \<in> set (Split pdf CHR '',''). pair_bad R pair")
  case True
  then show ?thesis by (rule sleep_pdf_malformed)
next
  case False
  with assms have "f_le R (total_weight R pdf) (f_zero R)" by (simp add: invalid_pdf_def)
  with False sleep_pdf_zero_total[of pdf R r] show ?thesis by simp
qed


text \<open>
  Claim C5. In weighted mode, for every list of pairs that is not invalid (every pair
  has the shape duration:weight and parses, and the total is not \<^verbatim>\<open><= 0\<close>), \<^verbatim>\<open>sleep\<close>
  sleeps for the duration of the first entry whose cumulative probability, taken over
  the normalised weights in the given order, is at least the draw \<open>r\<close>, and for the
  last entry when there is none; that duration is one of the listed durations.
\<close>

theorem weighted_sample_first_at_least:
  assumes "pdf \<noteq> []" and "\<not> invalid_pdf R pdf"
  shows "sleep R minD maxD pdf r rnd =
           Slept (first_at_least R r (cumulative R (normalized_weights R pdf)) (listed_durations R pdf))
       \<and> first_at_least R r (cumulative R (normalized_weights R pdf)) (listed_durations R pdf)
           \<in> set (listed_durations R pdf)"
  using assms(1) sleep_pdf_valid[OF assms(2), of r] by (simp add: sleep_def)


theorem weighted_sample_first_at_least_witness:
  "sleep example_runtime [] [] ''100ms:1,200ms:3'' (1 / 2) 0 = Slept 200000000
   \<and> listed_durations example_runtime ''100ms:1,200ms:3'' = [100000000, 200000000]
   \<and> cumulative example_runtime (normalized_weights example_runtime ''100ms:1,200ms:3'') = [1 / 4, 1]
   \<and> sleep example_runtime [] [] ''100ms:1,200ms:3'' (1 / 4) 0 = Slept 100000000"
  using weighted_sample_first_at_least[of "''100ms:1,200ms:3''" example_runtime "[]" "[]" "1 / 2" 0]
        weighted_sample_first_at_least[of "''100ms:1,200ms:3''" example_runtime "[]" "[]" "1 / 4" 0]
  by (simp add: invalid_pdf_def pair_bad_def pair_duration_def pair_weight_def total_weight_def
      listed_weights_def listed_durations_def List.map_filter_def example_runtime_def
      first_at_least_def cumulative_def normalized_weights_def upt_conv_Cons)


text \<open>
  Claim C7. In weighted mode \<^verbatim>\<open>sleep\<close> answers 400, without sleeping, exactly when the
  input is invalid: a pair without the shape duration:weight, a duration or a weight
  that does not parse, or a total weight that is \<^verbatim>\<open><= 0\<close>; otherwise it sleeps and
  answers with the duration.
\<close>

theorem weighted_bad_request_iff_invalid:
  assumes "pdf \<noteq> []"
  shows "((\<exists>msg. sleep R minD maxD pdf r rnd = BadRequest msg) \<longleftrightarrow> invalid_pdf R pdf)
       \<and> ((\<exists>d. sleep R minD maxD pdf r rnd = Slept d) \<longleftrightarrow> \<not> invalid_pdf R pdf)"
proof (cases "invalid_pdf R pdf")
  case True
  from sleep_pdf_invalid[OF True, of r] assms show ?thesis
    using True by (auto simp: sleep_def)
next
  case False
  from sleep_pdf_valid(1)[OF False, of r] assms show ?thesis
    using False by (auto simp: sleep_def)
qed

theorem weighted_bad_request_iff_invalid_witness:
  "(\<exists>msg. sleep example_runtime [] [] ''50ms:0,150ms:0'' (1 / 2) 0 = BadRequest msg)
   \<and> invalid_pdf example_runtime ''50ms:0,150ms:0''
   \<and> (\<exists>d. sleep example_runtime [] [] ''100ms:1,200ms:1'' (1 / 2) 0 = Slept d)"
  using weighted_bad_request_iff_invalid[of "''50ms:0,150ms:0''" example_runtime "[]" "[]" "1 / 2" 0]
        weighted_bad_request_iff_invalid[of "''100ms:1,200ms:1''" example_runtime "[]" "[]" "1 / 2" 0]
  by (simp add: invalid_pdf_def pair_bad_def pair_duration_def pair_weight_def total_weight_def
      listed_weights_def List.map_filter_def example_runtime_def)


subsection \<open>Uniform mode\<close>

text \<open>
  What holds of the uniform mode: with \<open>lo \<le> hi\<close> and \<open>hi - lo + 1\<close> inside \<^verbatim>\<open>int64\<close>
  the duration lies in \<open>[lo, hi]\<close>, and equal bounds give exactly \<open>lo\<close>. With
  \<open>hi < lo\<close> the argument of \<^verbatim>\<open>rand.Int63n\<close> is not positive and the handler panics.
\<close>

lemma sint_span:
  fixes lo hi :: "64 word"
  assumes "sint lo \<le> sint hi" and "sint hi - sint lo < 2 ^ 63 - 1"
  shows "sint (hi - lo + 1) = sint hi - sint lo + 1"
proof -
  have "hi - lo + 1 = word_of_int (sint hi - sint lo + 1)" by simp
  then have "sint (hi - lo + 1) = signed_take_bit 63 (sint hi - sint lo + 1)"
    by (simp only: sint_sbintrunc') simp
  also have "\<dots> = sint hi - sint lo + 1"
    using assms by (intro signed_take_bit_int_eq_self) simp_all
  finally show ?thesis .
qed

lemma sint_offset:
  fixes lo :: "64 word"
  assumes "0 \<le> x" and "sint lo + x < 2 ^ 63"
  shows "sint (lo + word_of_int x) = sint lo + x"
proof -
  have "- (2 ^ 63) \<le> sint lo" using sint_ge[of lo] by simp
  have "lo + word_of_int x = word_of_int (sint lo + x)" by simp
  then have "sint (lo + word_of_int x) = signed_take_bit 63 (sint lo + x)"
    by (simp only: sint_sbintrunc') simp
  also have "\<dots> = sint lo + x"
    using assms \<open>- (2 ^ 63) \<le> sint lo\<close> by (intro signed_take_bit_int_eq_self) simp_all
  finally show ?thesis .
qed

lemma uniform_in_range:
  assumes "ParseDuration R minD = Some lo" and "ParseDuration R maxD = Some hi"
    and "sint lo \<le> sint hi" and "sint hi - sint lo < 2 ^ 63 - 1"
  shows "\<exists>d. sleep R minD maxD [] r rnd = Slept d \<and> sint lo \<le> sint d \<and> sint d \<le> sint hi"
proof -
  let ?n = "sint hi - sint lo + 1"
  let ?x = "int rnd mod ?n"
  have n: "sint (hi - lo + 1) = ?n" by (rule sint_span[OF assms(3,4)])
  have pos: "0 < ?n" using assms(3) by simp
  have x: "0 \<le> ?x" "?x < ?n"
    using pos by (rule pos_mod_sign, rule pos_mod_bound)
  have "sint hi < 2 ^ 63" using sint_lt[of hi] by simp
  with x have "sint lo + ?x < 2 ^ 63" by linarith
  from sint_offset[OF x(1) this] have d: "sint (lo + word_of_int ?x) = sint lo + ?x" .
  have "sleep R minD maxD [] r rnd = Slept (lo + word_of_int ?x)"
    using pos by (simp add: sleep_def sleep_uniform_def parse_bound_def assms(1,2) n Int63n_def)
  with d x show ?thesis by simp
qed

lemma uniform_equal_bounds:
  assumes "ParseDuration R minD = Some lo" and "ParseDuration R maxD = Some lo"
  shows "sleep R minD maxD [] r rnd = Slept lo"
  by (simp add: sleep_def sleep_uniform_def parse_bound_def assms Int63n_def)

lemma uniform_panics_below:
  assumes "ParseDuration R minD = Some lo" and "ParseDuration R maxD = Some hi"
    and "sint hi < sint lo" and "sint lo - sint hi \<le> 2 ^ 63"
  shows "\<exists>p. sleep R minD maxD [] r rnd = Panicked p"
proof -
  have "hi - lo + 1 = word_of_int (sint hi - sint lo + 1)" by simp
  then have "sint (hi - lo + 1) = signed_take_bit 63 (sint hi - sint lo + 1)"
    by (simp only: sint_sbintrunc') simp
  also have "\<dots> = sint hi - sint lo + 1"
    using assms(3,4) by (intro signed_take_bit_int_eq_self) simp_all
  finally have "sint (hi - lo + 1) \<le> 0" using assms(3) by simp
  then show ?thesis
    by (simp add: sleep_def sleep_uniform_def parse_bound_def assms(1,2) Int63n_def)
qed

text \<open>
  Claim C6 at \<^verbatim>\<open>min=200ms&max=100ms\<close>: \<^verbatim>\<open>hi - lo + 1\<close> is negative, \<^verbatim>\<open>rand.Int63n\<close>
  panics, and no duration is returned, whatever the generator draws.
\<close>

theorem uniform_panics_when_max_below_min:
  "sleep example_runtime ''200ms'' ''100ms'' [] r rnd = Panicked ''invalid argument to Int63n''"
  by (simp add: sleep_def sleep_uniform_def parse_bound_def example_runtime_def Int63n_def)


theorem uniform_panics_when_max_below_min_witness:
  "sleep example_runtime ''200ms'' ''100ms'' [] 0 0 \<noteq> Slept 200000000
   \<and> sleep example_runtime ''100ms'' ''100ms'' [] 0 0 = Slept 100000000"
  using uniform_panics_when_max_below_min[of 0 0]
  by (simp add: sleep_def sleep_uniform_def parse_bound_def example_runtime_def Int63n_def)

section \<open>Properties of the proxy relay\<close>


lemma header_Get_canon: "header_Get canon m h = header_Get (\<lambda>x. x) m (canon h)"
  by (simp add: header_Get_def)

lemma forward_loop_map:
  "forward_loop canon hs src dest k =
     (if k \<in> canon ` set hs \<and> header_Get (\<lambda>x. x) src k \<noteq> []
      then Some [header_Get (\<lambda>x. x) src k] else dest k)"
proof (induction hs arbitrary: dest)
  case Nil
  then show ?case by simp
next
  case (Cons h hs)
  show ?case
    unfolding forward_loop.simps Let_def Cons.IH
    by (auto simp: header_Get_canon[of canon] header_Set_def)
qed

lemma forwardTraceHeaders_Get:
  "header_Get canon (forwardTraceHeaders canon src Map.empty) h =
     (if canon h \<in> canon ` set traceHeaders then header_Get canon src h else [])"
  unfolding forwardTraceHeaders_def header_Get_canon[of canon]
  by (simp add: header_Get_def[of "\<lambda>x. x" "forward_loop canon traceHeaders src Map.empty"] forward_loop_map)

lemma forwardTraceHeaders_only:
  "k \<notin> canon ` set traceHeaders \<Longrightarrow> forwardTraceHeaders canon src Map.empty k = None"
  by (simp add: forwardTraceHeaders_def forward_loop_map)

lemma serve_relay:
  assumes "\<not> wroteHeader w" and "body w = []"
  shows "status (serve g si [WriteHeader code, ReadFrom b] w) = code"
    and "body (serve g si [WriteHeader code, ReadFrom b] w) = b"
  using assms
  by (simp_all add: serve_def graceful_writer_def cw_WriteHeader_def cw_ReadFrom_def injectHeader_def
      Header_Set_def rw_WriteHeader_def rw_ReadFrom_def rw_Write_def io_Copy_def Let_def)

lemma serve_http_Error:
  assumes "\<not> wroteHeader w"
  shows "status (serve g si (http_Error msg code) w) = code"
  using assms
  by (simp add: http_Error_def serve_def graceful_writer_def cw_WriteHeader_def cw_Write_def injectHeader_def
      Header_Set_def rw_WriteHeader_def rw_Write_def Let_def)



lemma forwardTraceHeaders_exact:
  "forwardTraceHeaders canon src Map.empty (canon h) =
     (if h \<in> set traceHeaders \<or> canon h \<in> canon ` set traceHeaders
      then (if header_Get canon src h = [] then None else Some [header_Get canon src h])
      else None)"
  by (auto simp: forwardTraceHeaders_def forward_loop_map header_Get_canon[of canon])

lemma client_Do_first:
  "(case send req of
      Inr resp \<Rightarrow> (snd (redirectBehavior (Method req) resp) \<and> Location resp \<noteq> [])
                   \<or> client_Do Parse send n req = Inr resp
    | Inl err \<Rightarrow> client_Do Parse send n req = Inl err)"
  by (cases n) (auto split: sum.splits prod.splits bool.splits)

lemma proxy_relays_any_client:
  assumes "Method r \<noteq> []" and "validMethod (Method r)"
    and "Path (URL r) = ''/'' @ service @ rest"
    and "\<not> wroteHeader w" and "body w = []"
  shows "\<exists>req calls.
           proxy_request canon validMethod service r = Inr req
         \<and> Method req = Method r
         \<and> URL req = \<lparr>Scheme = ''http'', Host = service, Path = rest, RawQuery = RawQuery (URL r)\<rparr>
         \<and> Header req = forwardTraceHeaders canon (Header r) Map.empty
         \<and> proxy canon validMethod client service r = Inr calls
         \<and> (case client req of
               Inr resp \<Rightarrow> status (serve g si calls w) = StatusCode resp
                          \<and> body (serve g si calls w) = ResponseBody resp
             | Inl err \<Rightarrow> status (serve g si calls w) = 502)"
proof -
  let ?req = "\<lparr>Method = Method r,
               URL = \<lparr>Scheme = ''http'', Host = service, Path = rest, RawQuery = RawQuery (URL r)\<rparr>,
               Header = forwardTraceHeaders canon (Header r) Map.empty, Body = []\<rparr>"
  have req: "proxy_request canon validMethod service r = Inr ?req"
    using assms(1,2,3) by (simp add: proxy_request_def Let_def)
  show ?thesis
  proof (cases "client ?req")
    case (Inl err)
    then have "proxy canon validMethod client service r = Inr (http_Error ''Request to envoy failed\<newline>'' 502)"
      by (simp add: proxy_def req)
    with req Inl serve_http_Error[OF assms(4), of g si "''Request to envoy failed\<newline>''" 502]
    show ?thesis by simp
  next
    case (Inr resp)
    then have "proxy canon validMethod client service r = Inr [WriteHeader (StatusCode resp), ReadFrom (ResponseBody resp)]"
      by (simp add: proxy_def req)
    with req Inr serve_relay[OF assms(4,5), of g si "StatusCode resp" "ResponseBody resp"]
    show ?thesis by simp
  qed
qed

text \<open>
  Claim C8, as the code has it. For a request whose path is \<^verbatim>\<open>/{service}\<close> followed by the
  rest (what the router hands to \<^verbatim>\<open>proxy\<close>) and whose method is not empty and
  \<^verbatim>\<open>http.NewRequest\<close> accepts it, the request sent upstream has the method of the incoming
  request, goes to \<^verbatim>\<open>http://{service}\<close> with the rest as its path (the prefix is removed
  once) and the same query string, and carries for every header of the allow-list the
  first value the incoming request has for it, when that value is not empty, and
  nothing else: no further value of the header, no header whose first value is empty,
  no header outside the allow-list. The status code and body of the response are those
  of the response the client of \<^verbatim>\<open>main\<close> ends with: the reply of the upstream itself
  unless that is a redirect with a \<^verbatim>\<open>Location\<close>, which the client follows. When the
  client returns an error, as it does when the upstream cannot be reached, the response
  has status 502.
\<close>

theorem proxy_relays:
  assumes "Method r \<noteq> []" and "validMethod (Method r)"
    and "Path (URL r) = ''/'' @ service @ rest"
    and "\<not> wroteHeader w" and "body w = []"
  shows "\<exists>req calls.
           proxy_request canon validMethod service r = Inr req
         \<and> Method req = Method r
         \<and> URL req = \<lparr>Scheme = ''http'', Host = service, Path = rest, RawQuery = RawQuery (URL r)\<rparr>
         \<and> (\<forall>h \<in> set traceHeaders.
               Header req (canon h) =
                 (if header_Get canon (Header r) h = [] then None
                  else Some [header_Get canon (Header r) h])
             \<and> header_Get canon (Header req) h = header_Get canon (Header r) h)
         \<and> (\<forall>k. k \<notin> canon ` set traceHeaders \<longrightarrow> Header req k = None)
         \<and> proxy canon validMethod (main_client Parse send) service r = Inr calls
         \<and> (case main_client Parse send req of
               Inr resp \<Rightarrow> status (serve g si calls w) = StatusCode resp
                          \<and> body (serve g si calls w) = ResponseBody resp
             | Inl err \<Rightarrow> status (serve g si calls w) = 502)
         \<and> (case send req of
               Inr resp \<Rightarrow> (snd (redirectBehavior (Method req) resp) \<and> Location resp \<noteq> [])
                            \<or> main_client Parse send req = Inr resp
             | Inl err \<Rightarrow> main_client Parse send req = Inl err)"
proof -
  from proxy_relays_any_client[where r = r and validMethod = validMethod and service = service
      and rest = rest and w = w and canon = canon and client = "main_client Parse send"
      and g = g and si = si, OF assms]
  obtain req calls where
    req: "proxy_request canon validMethod service r = Inr req"
    and m: "Method req = Method r"
    and u: "URL req = \<lparr>Scheme = ''http'', Host = service, Path = rest, RawQuery = RawQuery (URL r)\<rparr>"
    and h: "Header req = forwardTraceHeaders canon (Header r) Map.empty"
    and p: "proxy canon validMethod (main_client Parse send) service r = Inr calls"
    and relay: "case main_client Parse send req of
               Inr resp \<Rightarrow> status (serve g si calls w) = StatusCode resp
                          \<and> body (serve g si calls w) = ResponseBody resp
             | Inl err \<Rightarrow> status (serve g si calls w) = 502"
    by blast
  have h1: "\<forall>h \<in> set traceHeaders.
               Header req (canon h) =
                 (if header_Get canon (Header r) h = [] then None
                  else Some [header_Get canon (Header r) h])
             \<and> header_Get canon (Header req) h = header_Get canon (Header r) h"
    unfolding h by (simp add: forwardTraceHeaders_exact forwardTraceHeaders_Get)
  have h2: "\<forall>k. k \<notin> canon ` set traceHeaders \<longrightarrow> Header req k = None"
    unfolding h by (simp add: forwardTraceHeaders_only)
  have first: "case send req of
               Inr resp \<Rightarrow> (snd (redirectBehavior (Method req) resp) \<and> Location resp \<noteq> [])
                            \<or> main_client Parse send req = Inr resp
             | Inl err \<Rightarrow> main_client Parse send req = Inl err"
    unfolding main_client_def by (rule client_Do_first)
  from req m u h1 h2 p relay first show ?thesis by blast
qed

theorem proxy_relays_witness:
  "(\<exists>req. proxy_request example_canon (\<lambda>m. m = ''GET'' \<or> m = ''POST'') ''nginx'' example_request = Inr req
        \<and> Method req = ''POST'' \<and> Host (URL req) = ''nginx'' \<and> Path (URL req) = ''/nginx/sleep''
        \<and> RawQuery (URL req) = ''min=1s''
        \<and> Header req ''X-Request-Id'' = Some [''abc-123'']
        \<and> Header req ''Cookie'' = None)
   \<and> proxy example_canon (\<lambda>m. m = ''GET'' \<or> m = ''POST'')
        (main_client example_Parse (\<lambda>req. Inr \<lparr>StatusCode = 201, Location = [], ResponseBody = ''Slept''\<rparr>))
        ''nginx'' example_request
      = Inr [WriteHeader 201, ReadFrom ''Slept'']
   \<and> status (serve True True [WriteHeader 201, ReadFrom ''Slept''] newResponse) = 201
   \<and> body (serve True True [WriteHeader 201, ReadFrom ''Slept''] newResponse) = ''Slept''"
  using proxy_relays[where r = example_request and validMethod = "\<lambda>m. m = ''GET'' \<or> m = ''POST''"
      and service = "''nginx''" and rest = "''/nginx/sleep''" and w = newResponse
      and canon = example_canon and Parse = example_Parse
      and send = "\<lambda>req. Inr \<lparr>StatusCode = 201, Location = [], ResponseBody = ''Slept''\<rparr>"
      and g = True and si = True]
  by (simp add: example_request_def newResponse_def proxy_def proxy_request_def forwardTraceHeaders_def
      traceHeaders_def header_Get_def header_Set_def Let_def example_canon_def main_client_def
      redirectBehavior_def eval_nat_numeral)

text \<open>
  Claim C8 as stated fails in two places. Of a header sent twice only the first value is
  forwarded, and a header whose first value is empty is not forwarded at all, since
  \<^verbatim>\<open>forwardTraceHeaders\<close> reads with \<^verbatim>\<open>Get\<close> and skips the empty string. And the client
  follows redirects: when the upstream answers the forwarded request with 302 and a
  \<^verbatim>\<open>Location\<close>, the response carries the status and body of the location, not those
  of the upstream's answer.
\<close>

theorem proxy_drops_values_and_follows_redirects:
  "(\<exists>req. proxy_request example_canon (\<lambda>m. True) ''nginx'' example_request_repeated = Inr req
        \<and> Header example_request_repeated ''Tracestate'' = Some [''a=1'', ''b=2'']
        \<and> Header req ''Tracestate'' = Some [''a=1'']
        \<and> Header example_request_repeated ''X-Request-Id'' = Some [[], ''abc-123'']
        \<and> Header req ''X-Request-Id'' = None
        \<and> example_upstream req = Inr \<lparr>StatusCode = 302, Location = ''/final'', ResponseBody = ''moved''\<rparr>)
   \<and> proxy example_canon (\<lambda>m. True) (main_client example_Parse example_upstream) ''nginx''
        example_request_repeated
      = Inr [WriteHeader 200, ReadFrom ''final'']
   \<and> status (serve True False [WriteHeader 200, ReadFrom ''final''] newResponse) = 200
   \<and> body (serve True False [WriteHeader 200, ReadFrom ''final''] newResponse) = ''final''"
  by (simp add: example_request_repeated_def newResponse_def proxy_def proxy_request_def
      forwardTraceHeaders_def traceHeaders_def header_Get_def header_Set_def Let_def example_canon_def
      main_client_def redirectBehavior_def eval_nat_numeral example_upstream_def example_Parse_def
      serve_def graceful_writer_def cw_WriteHeader_def cw_ReadFrom_def injectHeader_def
      rw_WriteHeader_def rw_ReadFrom_def rw_Write_def)



text \<open>Every response of \<^verbatim>\<open>proxy\<close> is written to at least once, so the decorator sees it.\<close>

lemma proxy_calls_write:
  "proxy canon validMethod client service r = Inr calls \<Longrightarrow> \<exists>c \<in> set calls. injects c"
  by (auto simp: proxy_def http_Error_def injects_def split: sum.splits proxy_error.splits)

end
